theory Spec2Isabelle
  imports Main "HOL-Library.Word"
begin

unbundle bit_operations_syntax

section \<open>Data model\<close>

text \<open>
  The C \<^verbatim>\<open>int\<close> of the firmware is modelled as \<^typ>\<open>int\<close>: every value the
  encoder handles (calendar fields, slot codes, counters below 183) is far from the
  32-bit bounds, and signed overflow is undefined in C. On \<^typ>\<open>int\<close>, \<open>AND\<close> and
  \<open>drop_bit\<close> are the two's complement operations, so \<open>x AND 1\<close> and \<open>x >> 1\<close>
  (arithmetic shift) behave on a negative \<open>x\<close> as they do on the target.
  \<^verbatim>\<open>unsigned long lastCheck\<close> wraps modulo \<open>2 ^ 32\<close> and is a \<^typ>\<open>32 word\<close>.
\<close>

text \<open>\<^verbatim>\<open>struct tm\<close> of \<^verbatim>\<open>time.h\<close>: \<open>tm_mon\<close> counts months since January (0..11),
  \<open>tm_year\<close> years since 1900, \<open>tm_wday\<close> days since Sunday (0..6).\<close>

record tm =
  tm_sec :: int
  tm_min :: int
  tm_hour :: int
  tm_mday :: int
  tm_mon :: int
  tm_year :: int
  tm_wday :: int
  tm_yday :: int
  tm_isdst :: int

definition MaxPulseNumber :: nat where
  "MaxPulseNumber = 183"

definition FirstMinutePulseBegin :: nat where
  "FirstMinutePulseBegin = 2"

definition SecondMinutePulseBegin :: nat where
  "SecondMinutePulseBegin = 62"

definition ThirdMinutePulseBegin :: nat where
  "ThirdMinutePulseBegin = 122"

section \<open>The BCD encoder\<close>

text \<open>\<^verbatim>\<open>int bin2Bcd(int dato)\<close>. For \<open>dato \<ge> 10\<close> the C division and remainder
  agree with \<open>div\<close> and \<open>mod\<close>; below 10 (negative values included) the argument is
  returned as it is. There is no range check and no failing path.\<close>

definition bin2Bcd :: "int \<Rightarrow> int" where
  "bin2Bcd dato =
     (if dato < 10 then dato
      else (let msb = push_bit 4 (dato div 10);
                lsb = dato mod 10
            in msb + lsb))"

section \<open>The minute-frame builder\<close>

text \<open>\<^verbatim>\<open>for (n = 0; n < 20; n++) pulseArray[n + ArrayOffset] = 1;\<close>\<close>

function fill_loop :: "nat \<Rightarrow> nat \<Rightarrow> int list \<Rightarrow> int list" where
  "fill_loop n ArrayOffset pa =
     (if n < 20 then fill_loop (Suc n) ArrayOffset (pa[n + ArrayOffset := 1]) else pa)"
  by pat_completeness auto
termination
  by (relation "measure (\<lambda>(n, ArrayOffset, pa). 20 - n)") auto

declare fill_loop.simps [simp del]

text \<open>The six field loops of \<^verbatim>\<open>calculateArray\<close> have one body,
  \<^verbatim>\<open>for (n = lo; n < hi; n++) { Tmp = TmpIn & 1; pulseArray[n + ArrayOffset] = Tmp + 1;
  ParityCount += Tmp; TmpIn >>= 1; }\<close>.
  The loop state is (pulseArray, ParityCount, TmpIn).\<close>

function field_loop :: "nat \<Rightarrow> nat \<Rightarrow> nat \<Rightarrow> int list \<times> int \<times> int \<Rightarrow> int list \<times> int \<times> int" where
  "field_loop n hi ArrayOffset (pa, ParityCount, TmpIn) =
     (if n < hi then
        (let Tmp = TmpIn AND 1
         in field_loop (Suc n) hi ArrayOffset
              (pa[n + ArrayOffset := Tmp + 1], ParityCount + Tmp, drop_bit 1 TmpIn))
      else (pa, ParityCount, TmpIn))"
  by pat_completeness auto
termination
  by (relation "measure (\<lambda>(n, hi, ArrayOffset, st). hi - n)") auto

declare field_loop.simps [simp del]

text \<open>\<^verbatim>\<open>if ((ParityCount & 1) == 0) pulseArray[k + ArrayOffset] = 1; else
  pulseArray[k + ArrayOffset] = 2;\<close>\<close>

definition parity_slot :: "nat \<Rightarrow> int \<Rightarrow> int list \<Rightarrow> int list" where
  "parity_slot i ParityCount pa =
     (if ParityCount AND 1 = 0 then pa[i := 1] else pa[i := 2])"

text \<open>\<^verbatim>\<open>void calculateArray(int ArrayOffset, tm *timeinfo)\<close>, on the global
  \<open>pulseArray\<close>, which is passed in and returned. A write \<open>pa[i := v]\<close> past the end
  of the list leaves it unchanged, where C has undefined behaviour; the three offsets
  the program uses keep every index below 183.\<close>

definition calculateArray :: "nat \<Rightarrow> tm \<Rightarrow> int list \<Rightarrow> int list" where
  "calculateArray ArrayOffset timeinfo pa0 =
     (let pa = fill_loop 0 ArrayOffset pa0;
          pa = (if tm_isdst timeinfo = 1 then pa[17 + ArrayOffset := 2]
                else pa[18 + ArrayOffset := 2]);
          pa = pa[20 + ArrayOffset := 2];
          (pa, ParityCount, TmpIn) =
             field_loop 21 28 ArrayOffset (pa, 0, bin2Bcd (tm_min timeinfo));
          pa = parity_slot (28 + ArrayOffset) ParityCount pa;
          (pa, ParityCount, TmpIn) =
             field_loop 29 35 ArrayOffset (pa, 0, bin2Bcd (tm_hour timeinfo));
          pa = parity_slot (35 + ArrayOffset) ParityCount pa;
          (pa, ParityCount, TmpIn) =
             field_loop 36 42 ArrayOffset (pa, 0, bin2Bcd (tm_mday timeinfo));
          (pa, ParityCount, TmpIn) =
             field_loop 42 45 ArrayOffset (pa, ParityCount, bin2Bcd (tm_wday timeinfo));
          (pa, ParityCount, TmpIn) =
             field_loop 45 50 ArrayOffset (pa, ParityCount, bin2Bcd (tm_mon timeinfo));
          (pa, ParityCount, TmpIn) =
             field_loop 50 58 ArrayOffset (pa, ParityCount, bin2Bcd (tm_year timeinfo - 2000));
          pa = parity_slot (58 + ArrayOffset) ParityCount pa
      in pa[59 + ArrayOffset := 0])"


section \<open>Calendar normalisation\<close>

text \<open>Modelled from the spec: \<^verbatim>\<open>mktime\<close> is the C library's function and not part of
  the repository's sources. The spec describes its use as ``advance by one minute
  (normalizing calendar fields)'' and ``re-normalizing calendar fields (e.g., hour/day
  rollover)''. The model carries out-of-range seconds into minutes, minutes into hours,
  hours into days, months into years and days into months, and recomputes \<open>tm_wday\<close> and
  \<open>tm_yday\<close>. \<open>tm_isdst\<close> is kept: a daylight-saving change inside the interval is outside
  the spec's scope. Leap years, for \<open>tm_year\<close> counted from 1900:\<close>

definition is_leap_year :: "int \<Rightarrow> bool" where
  "is_leap_year year =
     (let y = year + 1900 in y mod 4 = 0 \<and> (y mod 400 = 0 \<or> y mod 100 \<noteq> 0))"

text \<open>Modelled from the spec: the length of month \<open>mon\<close> (0 = January) of year \<open>year\<close>,
  for the day rollover of \<^verbatim>\<open>mktime\<close>.\<close>

definition days_in_month :: "int \<Rightarrow> int \<Rightarrow> int" where
  "days_in_month mon year =
     (if mon = 1 then (if is_leap_year year then 29 else 28)
      else if mon = 3 \<or> mon = 5 \<or> mon = 8 \<or> mon = 10 then 30
      else 31)"

text \<open>Modelled from the spec: day rollover of \<^verbatim>\<open>mktime\<close> for a day of the month past
  the end of its month; the state is (\<open>tm_mday\<close>, \<open>tm_mon\<close>, \<open>tm_year\<close>).\<close>

function days_up :: "int \<Rightarrow> int \<Rightarrow> int \<Rightarrow> int \<times> int \<times> int" where
  "days_up mday mon year =
     (if mday > days_in_month mon year then
        (if mon + 1 = 12 then days_up (mday - days_in_month mon year) 0 (year + 1)
         else days_up (mday - days_in_month mon year) (mon + 1) year)
      else (mday, mon, year))"
  by pat_completeness auto
termination
  by (relation "measure (\<lambda>(mday, mon, year). nat mday)")
    (auto simp: days_in_month_def split: if_splits)

declare days_up.simps [simp del]

text \<open>Modelled from the spec: day rollover of \<^verbatim>\<open>mktime\<close> for a day of the month
  below 1.\<close>

function days_down :: "int \<Rightarrow> int \<Rightarrow> int \<Rightarrow> int \<times> int \<times> int" where
  "days_down mday mon year =
     (if mday \<le> 0 then
        (if mon - 1 = -1 then days_down (mday + days_in_month 11 (year - 1)) 11 (year - 1)
         else days_down (mday + days_in_month (mon - 1) year) (mon - 1) year)
      else (mday, mon, year))"
  by pat_completeness auto
termination
  by (relation "measure (\<lambda>(mday, mon, year). nat (1 - mday))")
    (auto simp: days_in_month_def split: if_splits)

declare days_down.simps [simp del]

text \<open>Modelled from the spec: days from 1 January 1970 to the civil date
  (\<open>y\<close> the calendar year, \<open>m\<close> in 1..12), for \<open>tm_wday\<close>.\<close>

definition days_from_civil :: "int \<Rightarrow> int \<Rightarrow> int \<Rightarrow> int" where
  "days_from_civil y m d =
     (let y' = (if m \<le> 2 then y - 1 else y);
          era = y' div 400;
          yoe = y' - era * 400;
          doy = (153 * (if m > 2 then m - 3 else m + 9) + 2) div 5 + d - 1;
          doe = yoe * 365 + yoe div 4 - yoe div 100 + doy
      in era * 146097 + doe - 719468)"

text \<open>Modelled from the spec: the day of the year (0 = 1 January) of a normalised
  date, for \<open>tm_yday\<close>.\<close>

definition day_of_year :: "int \<Rightarrow> int \<Rightarrow> int \<Rightarrow> int" where
  "day_of_year mday mon year =
     days_from_civil (year + 1900) (mon + 1) mday - days_from_civil (year + 1900) 1 1"

text \<open>Modelled from the spec: \<^verbatim>\<open>mktime(timeinfo)\<close> as the program uses it, for its
  effect on the structure (the returned \<^verbatim>\<open>time_t\<close> is ignored by the program).\<close>

definition mktime :: "tm \<Rightarrow> tm" where
  "mktime t =
     (let sec = tm_sec t mod 60;
          min0 = tm_min t + tm_sec t div 60;
          min = min0 mod 60;
          hour0 = tm_hour t + min0 div 60;
          hour = hour0 mod 24;
          mday0 = tm_mday t + hour0 div 24;
          mon0 = tm_mon t mod 12;
          year0 = tm_year t + tm_mon t div 12;
          (mday, mon, year) =
             (if mday0 \<le> 0 then days_down mday0 mon0 year0 else days_up mday0 mon0 year0)
      in \<lparr>tm_sec = sec, tm_min = min, tm_hour = hour, tm_mday = mday, tm_mon = mon,
          tm_year = year,
          tm_wday = (days_from_civil (year + 1900) (mon + 1) mday + 4) mod 7,
          tm_yday = day_of_year mday mon year,
          tm_isdst = tm_isdst t\<rparr>)"

section \<open>Program state\<close>

text \<open>The globals of \<^verbatim>\<open>main.cpp\<close> that the DCF77 core reads and writes, and the two
  effects it has on the outside: the levels written to \<^verbatim>\<open>DCF_OUT_PIN\<close> with
  \<^verbatim>\<open>digitalWrite\<close> and the arguments of its blocking \<^verbatim>\<open>delay\<close> calls, both in call
  order.\<close>

record dcf_state =
  pulseArray :: "int list"
  pulseCount :: int
  dcfOutputOn :: int
  partialpulseCount :: int
  lastCheck :: "32 word"
  timeCorrectionOffset :: int
  pinWrites :: "int list"
  delays :: "int list"

definition digitalWrite :: "int \<Rightarrow> dcf_state \<Rightarrow> dcf_state" where
  "digitalWrite v s = s\<lparr>pinWrites := pinWrites s @ [v]\<rparr>"

definition delay :: "int \<Rightarrow> dcf_state \<Rightarrow> dcf_state" where
  "delay ms s = s\<lparr>delays := delays s @ [ms]\<rparr>"

text \<open>The level of the output line: the last level written.\<close>

definition pinLevel :: "dcf_state \<Rightarrow> int" where
  "pinLevel s = last (pinWrites s)"

text \<open>The globals as C initialises them (static storage is zeroed), for a configured
  correction offset.\<close>

definition initial_state :: "int \<Rightarrow> dcf_state" where
  "initial_state offset =
     \<lparr>pulseArray = replicate MaxPulseNumber 0, pulseCount = 0, dcfOutputOn = 0,
      partialpulseCount = 0, lastCheck = 0, timeCorrectionOffset = offset,
      pinWrites = [], delays = []\<rparr>"

section \<open>The pulse emitter\<close>

text \<open>\<^verbatim>\<open>void dcfOut()\<close>, called every 100 ms. \<^verbatim>\<open>switch (partialpulseCount++)\<close> tests
  the old value and stores the incremented one; \<^verbatim>\<open>pulseCount++ == MaxPulseNumber - 1\<close>
  likewise. The cases 3..8 and every other value have no branch. The index
  \<open>pulseCount\<close> is in 0..182 in every reachable state (lemma \<open>reachable_inv\<close>), so the
  read is never out of range and \<open>nat\<close> never cuts a negative index.\<close>

definition dcfOut :: "dcf_state \<Rightarrow> dcf_state" where
  "dcfOut s0 =
     (if dcfOutputOn s0 = 1 then
        (let sub = partialpulseCount s0;
             s = s0\<lparr>partialpulseCount := sub + 1\<rparr>
         in if sub = 0 then
              (if pulseArray s ! nat (pulseCount s) \<noteq> 0 then digitalWrite 0 s else s)
            else if sub = 1 then
              (if pulseArray s ! nat (pulseCount s) = 1 then digitalWrite 1 s else s)
            else if sub = 2 then digitalWrite 1 s
            else if sub = 9 then
              (let pc = pulseCount s;
                   s = s\<lparr>pulseCount := pc + 1\<rparr>;
                   s = (if pc = int MaxPulseNumber - 1
                        then s\<lparr>pulseCount := 0, dcfOutputOn := 0\<rparr> else s)
               in s\<lparr>partialpulseCount := 0\<rparr>)
            else s)
      else s0)"

section \<open>The telegram composer\<close>

text \<open>\<^verbatim>\<open>void readAndDecodeTime()\<close>. \<open>now\<close> is what \<^verbatim>\<open>localtime(&now)\<close> returns
  for the time read. The function is one step on the state; the calls of the timer
  callback \<open>dcfOut\<close> that fall inside it are covered by \<open>reachable\<close> below.\<close>

definition readAndDecodeTime :: "tm \<Rightarrow> dcf_state \<Rightarrow> dcf_state" where
  "readAndDecodeTime now s0 =
     (let timeinfo = mktime (now\<lparr>tm_sec := tm_sec now + timeCorrectionOffset s0\<rparr>)
      in if tm_sec timeinfo > 56 then s0\<lparr>lastCheck := lastCheck s0 + 30000\<rparr>
         else
           (let s = s0\<lparr>pulseArray := calculateArray FirstMinutePulseBegin timeinfo (pulseArray s0)\<rparr>;
                timeinfo = mktime (timeinfo\<lparr>tm_min := tm_min timeinfo + 1\<rparr>);
                s = s\<lparr>pulseArray := calculateArray SecondMinutePulseBegin timeinfo (pulseArray s)\<rparr>;
                timeinfo = mktime (timeinfo\<lparr>tm_min := tm_min timeinfo + 1\<rparr>);
                s = s\<lparr>pulseArray := calculateArray ThirdMinutePulseBegin timeinfo (pulseArray s)\<rparr>;
                SkipSeconds = 58 - tm_sec timeinfo;
                s = delay (SkipSeconds * 1000) s;
                s = s\<lparr>dcfOutputOn := 1\<rparr>
            in delay 150000 s))"

text \<open>\<^verbatim>\<open>void setupDcf()\<close>; setting the pin mode and attaching the timer have no
  effect on the state.\<close>

definition setupDcf :: "dcf_state \<Rightarrow> dcf_state" where
  "setupDcf s0 =
     (let s = digitalWrite 0 s0;
          s = s\<lparr>pulseArray := (pulseArray s)[0 := 1]\<rparr>;
          s = s\<lparr>pulseArray := (pulseArray s)[1 := 0]\<rparr>;
          s = s\<lparr>pulseArray := (pulseArray s)[MaxPulseNumber - 1 := 1]\<rparr>;
          s = s\<lparr>pulseCount := 0\<rparr>
      in s\<lparr>dcfOutputOn := 0\<rparr>)"


section \<open>Reading a frame\<close>

text \<open>The \<open>n\<close> low bits of \<open>x\<close>, least significant first, each as 0 or 1: what a
  field loop of \<open>calculateArray\<close> shifts out of \<open>TmpIn\<close>.\<close>

definition low_bits :: "nat \<Rightarrow> int \<Rightarrow> int list" where
  "low_bits n x = map (\<lambda>k. of_bool (bit x k)) [0..<n]"

text \<open>The slot code of bit \<open>k\<close> of \<open>x\<close>: 1 (a 100 ms pulse) for 0, 2 (200 ms) for 1.\<close>

definition bit_code :: "int \<Rightarrow> nat \<Rightarrow> int" where
  "bit_code x k = (if bit x k then 2 else 1)"

text \<open>The slot code of the even-parity bit for a count of ones.\<close>

definition parity_code :: "int \<Rightarrow> int" where
  "parity_code ParityCount = (if even ParityCount then 1 else 2)"

text \<open>The value of \<open>ParityCount\<close> when \<open>calculateArray\<close> reaches the date parity.\<close>

definition date_parity :: "tm \<Rightarrow> int" where
  "date_parity t =
     sum_list (low_bits 6 (bin2Bcd (tm_mday t))) + sum_list (low_bits 3 (bin2Bcd (tm_wday t))) +
     sum_list (low_bits 5 (bin2Bcd (tm_mon t))) +
     sum_list (low_bits 8 (bin2Bcd (tm_year t - 2000)))"

text \<open>Closed form of the code \<open>calculateArray\<close> leaves in slot \<open>j\<close> of its frame;
  lemma \<open>calculateArray_nth_gen\<close> below proves it from the loops.\<close>

definition slot_code :: "tm \<Rightarrow> nat \<Rightarrow> int" where
  "slot_code t j =
     (if j = 59 then 0
      else if j = 58 then parity_code (date_parity t)
      else if 50 \<le> j then bit_code (bin2Bcd (tm_year t - 2000)) (j - 50)
      else if 45 \<le> j then bit_code (bin2Bcd (tm_mon t)) (j - 45)
      else if 42 \<le> j then bit_code (bin2Bcd (tm_wday t)) (j - 42)
      else if 36 \<le> j then bit_code (bin2Bcd (tm_mday t)) (j - 36)
      else if j = 35 then parity_code (sum_list (low_bits 6 (bin2Bcd (tm_hour t))))
      else if 29 \<le> j then bit_code (bin2Bcd (tm_hour t)) (j - 29)
      else if j = 28 then parity_code (sum_list (low_bits 7 (bin2Bcd (tm_min t))))
      else if 21 \<le> j then bit_code (bin2Bcd (tm_min t)) (j - 21)
      else if j = 20 then 2
      else if j = 18 then (if tm_isdst t = 1 then 1 else 2)
      else if j = 17 then (if tm_isdst t = 1 then 2 else 1)
      else 1)"

text \<open>The receiver's side, used to state what a frame encodes. The bits of the slots
  \<open>lo..hi-1\<close> of the frame at \<open>ArrayOffset\<close> (code 1 is bit 0, code 2 is bit 1):\<close>

definition frame_bits :: "int list \<Rightarrow> nat \<Rightarrow> nat \<Rightarrow> nat \<Rightarrow> int list" where
  "frame_bits pa ArrayOffset lo hi = map (\<lambda>n. pa ! (n + ArrayOffset) - 1) [lo..<hi]"

text \<open>The number a bit list (least significant first) stands for.\<close>

fun bits_value :: "int list \<Rightarrow> int" where
  "bits_value [] = 0"
| "bits_value (b # bs) = b + 2 * bits_value bs"

text \<open>BCD decoding of a field: the first four bits are the units digit, the rest the
  tens digit.\<close>

definition bcd_decode :: "int list \<Rightarrow> int" where
  "bcd_decode bs = bits_value (take 4 bs) + 10 * bits_value (drop 4 bs)"

text \<open>What \<^verbatim>\<open>localtime\<close> returns on Sunday 31 March 2024 at 01:59:30, the spec's
  end-to-end scenario.\<close>

definition tm_2024_03_31 :: tm where
  "tm_2024_03_31 =
     \<lparr>tm_sec = 30, tm_min = 59, tm_hour = 1, tm_mday = 31, tm_mon = 2, tm_year = 124,
      tm_wday = 0, tm_yday = 90, tm_isdst = 0\<rparr>"

text \<open>What \<^verbatim>\<open>localtime\<close> returns on Tuesday 31 December 2024 at 23:59:30, where the
  next minute rolls over every calendar field.\<close>

definition tm_2024_12_31 :: tm where
  "tm_2024_12_31 =
     \<lparr>tm_sec = 30, tm_min = 59, tm_hour = 23, tm_mday = 31, tm_mon = 11, tm_year = 124,
      tm_wday = 2, tm_yday = 365, tm_isdst = 0\<rparr>"

text \<open>What \<^verbatim>\<open>localtime\<close> returns on Friday 31 December 2027 at 23:59:30.\<close>

definition tm_2027_12_31 :: tm where
  "tm_2027_12_31 =
     \<lparr>tm_sec = 30, tm_min = 59, tm_hour = 23, tm_mday = 31, tm_mon = 11, tm_year = 127,
      tm_wday = 5, tm_yday = 364, tm_isdst = 0\<rparr>"

text \<open>The frame of a snapshot by itself: the 60 slots \<open>calculateArray\<close> writes, taken
  from a buffer of 60 slots at offset 0 (the spec's \<open>buildMinuteFrame\<close>).\<close>

definition minute_frame :: "tm \<Rightarrow> int list" where
  "minute_frame t = calculateArray 0 t (replicate 60 0)"

section \<open>Calendar minutes\<close>

text \<open>A normalised broken-down time.\<close>

definition valid_tm :: "tm \<Rightarrow> bool" where
  "valid_tm t =
     (0 \<le> tm_sec t \<and> tm_sec t \<le> 59 \<and> 0 \<le> tm_min t \<and> tm_min t \<le> 59 \<and>
      0 \<le> tm_hour t \<and> tm_hour t \<le> 23 \<and>
      1 \<le> tm_mday t \<and> tm_mday t \<le> days_in_month (tm_mon t) (tm_year t) \<and>
      0 \<le> tm_mon t \<and> tm_mon t \<le> 11)"

text \<open>The calendar minute after a normalised time, with each rollover written out:
  minute 59 carries into the hour, hour 23 into the day, the last day of a month into the
  month, December into the year. The claims about consecutive minutes are stated against
  this function; lemma \<open>mktime_next_minute\<close> shows that adding one to \<open>tm_min\<close> and
  normalising computes it.\<close>

definition next_minute :: "tm \<Rightarrow> tm" where
  "next_minute t =
     (let hour_carry = (tm_min t = 59);
          day_carry = (hour_carry \<and> tm_hour t = 23);
          mon_carry = (day_carry \<and> tm_mday t = days_in_month (tm_mon t) (tm_year t));
          year_carry = (mon_carry \<and> tm_mon t = 11);
          min = (if hour_carry then 0 else tm_min t + 1);
          hour = (if day_carry then 0 else if hour_carry then tm_hour t + 1 else tm_hour t);
          mday = (if mon_carry then 1 else if day_carry then tm_mday t + 1 else tm_mday t);
          mon = (if year_carry then 0 else if mon_carry then tm_mon t + 1 else tm_mon t);
          year = (if year_carry then tm_year t + 1 else tm_year t)
      in \<lparr>tm_sec = tm_sec t, tm_min = min, tm_hour = hour, tm_mday = mday, tm_mon = mon,
          tm_year = year,
          tm_wday = (days_from_civil (year + 1900) (mon + 1) mday + 4) mod 7,
          tm_yday = day_of_year mday mon year,
          tm_isdst = tm_isdst t\<rparr>)"

section \<open>Reachable states\<close>

text \<open>The value of \<open>timeinfo\<close> that \<open>readAndDecodeTime\<close> tests against 56 and builds the
  first frame from: the time read, with the correction offset added and normalised.\<close>

definition corrected_time :: "tm \<Rightarrow> dcf_state \<Rightarrow> tm" where
  "corrected_time now s = mktime (now\<lparr>tm_sec := tm_sec now + timeCorrectionOffset s\<rparr>)"

text \<open>The states of the running program: \<open>setup\<close> calls \<open>setupDcf\<close> on the initial
  globals; from then on the timer calls \<open>dcfOut\<close> and \<open>loop\<close> calls
  \<open>readAndDecodeTime\<close>, in any order and with any time read. The timer may also fire
  inside a composition, so the composer's steps (a call of \<open>calculateArray\<close> at one of
  the three offsets, a wait, the setting of the flag) are steps of their own as well.\<close>

inductive reachable :: "dcf_state \<Rightarrow> bool" where
  reach_setup: "reachable (setupDcf (initial_state offset))"
| reach_tick: "reachable s \<Longrightarrow> reachable (dcfOut s)"
| reach_compose: "reachable s \<Longrightarrow> reachable (readAndDecodeTime now s)"
| reach_frame: "reachable s \<Longrightarrow>
     ArrayOffset = FirstMinutePulseBegin \<or> ArrayOffset = SecondMinutePulseBegin
       \<or> ArrayOffset = ThirdMinutePulseBegin \<Longrightarrow>
     reachable (s\<lparr>pulseArray := calculateArray ArrayOffset t (pulseArray s)\<rparr>)"
| reach_wait: "reachable s \<Longrightarrow> reachable (delay ms s)"
| reach_activate: "reachable s \<Longrightarrow> reachable (s\<lparr>dcfOutputOn := 1\<rparr>)"

text \<open>The invariant of the reachable states.\<close>

definition dcf_inv :: "dcf_state \<Rightarrow> bool" where
  "dcf_inv s =
     (length (pulseArray s) = 183 \<and> pulseArray s ! 0 = 1 \<and> pulseArray s ! 1 = 0 \<and>
      pulseArray s ! 182 = 1 \<and> (\<forall>i<183. pulseArray s ! i \<in> {0, 1, 2}) \<and>
      0 \<le> pulseCount s \<and> pulseCount s \<le> 182 \<and>
      0 \<le> partialpulseCount s \<and> partialpulseCount s \<le> 9 \<and>
      (dcfOutputOn s = 0 \<or> dcfOutputOn s = 1) \<and>
      (dcfOutputOn s = 0 \<longrightarrow> pulseCount s = 0 \<and> partialpulseCount s = 0) \<and>
      pinWrites s \<noteq> [])"

text \<open>The levels \<open>dcfOut\<close> writes during the ticks 0..\<open>j\<close> of a slot holding \<open>code\<close>.\<close>

definition slot_writes :: "int \<Rightarrow> nat \<Rightarrow> int list" where
  "slot_writes code j =
     (if code \<noteq> 0 then [0] else []) @ (if 1 \<le> j \<and> code = 1 then [1] else []) @
     (if 2 \<le> j then [1] else [])"

text \<open>The state after \<open>setup\<close> with no correction offset configured.\<close>

definition example_state :: dcf_state where
  "example_state = setupDcf (initial_state 0)"

section \<open>The frame in closed form\<close>

lemma nth_upd: "xs[i := v] ! j = (if i = j \<and> i < length xs then v else xs ! j)"
  by (cases "i < length xs") (simp_all add: nth_list_update list_update_beyond)

lemma fill_loop_length: "length (fill_loop n off pa) = length pa"
  by (induction n off pa rule: fill_loop.induct) (simp add: fill_loop.simps)

lemma fill_loop_nth:
  "fill_loop n off pa ! i = (if n + off \<le> i \<and> i < 20 + off \<and> i < length pa then 1 else pa ! i)"
proof (induction n off pa rule: fill_loop.induct)
  case (1 n off pa)
  show ?case
  proof (cases "n < 20")
    case True
    with "1" show ?thesis
      by (subst fill_loop.simps) (auto simp: nth_upd)
  next
    case False
    then show ?thesis by (subst fill_loop.simps) simp
  qed
qed

lemma field_loop_length: "length (fst (field_loop n hi off st)) = length (fst st)"
proof (induction n hi off st rule: field_loop.induct)
  case (1 n hi off pa pc tin)
  then show ?case by (subst field_loop.simps) (simp add: Let_def)
qed

lemma and_one_plus: "(tin AND 1) + 1 = (if bit tin 0 then 2 else (1::int))"
  by (simp add: and_one_eq bit_0 mod_2_eq_odd)

lemma field_loop_nth:
  "fst (field_loop n hi off st) ! i =
     (if n + off \<le> i \<and> i < hi + off \<and> i < length (fst st)
      then (if bit (snd (snd st)) (i - off - n) then 2 else 1) else fst st ! i)"
proof (induction n hi off st arbitrary: i rule: field_loop.induct)
  case (1 n hi off pa pc tin)
  show ?case
  proof (cases "n < hi")
    case True
    show ?thesis
    proof (cases "i = n + off")
      case True
      with \<open>n < hi\<close> "1.IH" [OF \<open>n < hi\<close> refl, of i] show ?thesis
        by (subst field_loop.simps) (simp add: Let_def and_one_plus nth_upd)
    next
      case False
      have "bit (drop_bit 1 tin) (i - off - Suc n) = bit tin (i - off - n)" if "Suc n + off \<le> i"
      proof -
        from that have "Suc (i - off - Suc n) = i - off - n" by arith
        then show ?thesis by (simp add: bit_drop_bit_eq)
      qed
      with False \<open>n < hi\<close> "1.IH" [OF \<open>n < hi\<close> refl, of i] show ?thesis
        by (subst field_loop.simps) (auto simp: Let_def nth_upd)
    qed
  next
    case False
    then show ?thesis by (subst field_loop.simps) simp
  qed
qed

lemma low_bits_Suc: "low_bits (Suc d) x = (x AND 1) # low_bits d (drop_bit 1 x)"
proof -
  have "[0..<Suc d] = 0 # map Suc [0..<d]"
    by (metis map_Suc_upt upt_conv_Cons zero_less_Suc)
  then show ?thesis
    by (simp add: low_bits_def bit_drop_bit_eq and_one_eq bit_0 mod_2_eq_odd comp_def del: upt_Suc)
qed

lemma field_loop_parity:
  "fst (snd (field_loop n hi off st)) =
     fst (snd st) + sum_list (low_bits (hi - n) (snd (snd st)))"
proof (induction n hi off st rule: field_loop.induct)
  case (1 n hi off pa pc tin)
  show ?case
  proof (cases "n < hi")
    case True
    then obtain d where d: "hi - n = Suc d" "hi - Suc n = d"
      by (cases "hi - n") auto
    with True "1.IH" [OF True refl] show ?thesis
      by (subst field_loop.simps) (simp add: Let_def low_bits_Suc)
  next
    case False
    then show ?thesis by (subst field_loop.simps) (simp add: low_bits_def)
  qed
qed

lemma parity_slot_length: "length (parity_slot i pc pa) = length pa"
  by (simp add: parity_slot_def)

lemma parity_slot_nth:
  "parity_slot i pc pa ! j = (if i = j \<and> i < length pa then (if even pc then 1 else 2) else pa ! j)"
  by (simp add: parity_slot_def nth_upd and_one_eq mod_2_eq_odd)

lemma calculateArray_length: "length (calculateArray off t pa) = length pa"
  by (simp add: calculateArray_def Let_def split_beta field_loop_length fill_loop_length
      parity_slot_length)

lemma calculateArray_nth_gen:
  "calculateArray off t pa ! i =
     (if off \<le> i \<and> i < off + 60 \<and> i < length pa then slot_code t (i - off) else pa ! i)"
proof -
  define pa1 where "pa1 = fill_loop 0 off pa"
  define pa2 where "pa2 = (if tm_isdst t = 1 then pa1[17 + off := 2] else pa1[18 + off := 2])"
  define pa3 where "pa3 = pa2[20 + off := 2]"
  define s4 where "s4 = field_loop 21 28 off (pa3, 0, bin2Bcd (tm_min t))"
  define pa5 where "pa5 = parity_slot (28 + off) (fst (snd s4)) (fst s4)"
  define s6 where "s6 = field_loop 29 35 off (pa5, 0, bin2Bcd (tm_hour t))"
  define pa7 where "pa7 = parity_slot (35 + off) (fst (snd s6)) (fst s6)"
  define s8 where "s8 = field_loop 36 42 off (pa7, 0, bin2Bcd (tm_mday t))"
  define s9 where "s9 = field_loop 42 45 off (fst s8, fst (snd s8), bin2Bcd (tm_wday t))"
  define s10 where "s10 = field_loop 45 50 off (fst s9, fst (snd s9), bin2Bcd (tm_mon t))"
  define s11 where "s11 = field_loop 50 58 off (fst s10, fst (snd s10), bin2Bcd (tm_year t - 2000))"
  define pa12 where "pa12 = parity_slot (58 + off) (fst (snd s11)) (fst s11)"
  have calc: "calculateArray off t pa = pa12[59 + off := 0]"
    unfolding calculateArray_def Let_def split_beta pa12_def s11_def s10_def s9_def s8_def
      pa7_def s6_def pa5_def s4_def pa3_def pa2_def pa1_def ..
  have len: "length pa1 = length pa" "length pa2 = length pa" "length pa3 = length pa"
    "length (fst s4) = length pa" "length pa5 = length pa" "length (fst s6) = length pa"
    "length pa7 = length pa" "length (fst s8) = length pa" "length (fst s9) = length pa"
    "length (fst s10) = length pa" "length (fst s11) = length pa" "length pa12 = length pa"
    by (simp_all add: pa1_def pa2_def pa3_def s4_def pa5_def s6_def pa7_def s8_def s9_def
        s10_def s11_def pa12_def fill_loop_length field_loop_length parity_slot_length)
  have par: "fst (snd s4) = sum_list (low_bits 7 (bin2Bcd (tm_min t)))"
    "fst (snd s6) = sum_list (low_bits 6 (bin2Bcd (tm_hour t)))"
    "fst (snd s11) = date_parity t"
    by (simp_all add: s4_def s6_def s8_def s9_def s10_def s11_def field_loop_parity date_parity_def)
  have n1: "pa1 ! i = (if off \<le> i \<and> i < 20 + off \<and> i < length pa then 1 else pa ! i)" for i
    by (simp add: pa1_def fill_loop_nth)
  have n2: "pa2 ! i = (if tm_isdst t = 1 \<and> i = 17 + off \<and> i < length pa then 2
      else if tm_isdst t \<noteq> 1 \<and> i = 18 + off \<and> i < length pa then 2 else pa1 ! i)" for i
    by (auto simp add: pa2_def nth_upd len)
  have n3: "pa3 ! i = (if i = 20 + off \<and> i < length pa then 2 else pa2 ! i)" for i
    by (auto simp add: pa3_def nth_upd len)
  have n4: "fst s4 ! i = (if 21 + off \<le> i \<and> i < 28 + off \<and> i < length pa
      then bit_code (bin2Bcd (tm_min t)) (i - off - 21) else pa3 ! i)" for i
    by (simp add: s4_def field_loop_nth len bit_code_def)
  have n5: "pa5 ! i = (if i = 28 + off \<and> i < length pa
      then parity_code (sum_list (low_bits 7 (bin2Bcd (tm_min t)))) else fst s4 ! i)" for i
    by (auto simp add: pa5_def parity_slot_nth len par parity_code_def)
  have n6: "fst s6 ! i = (if 29 + off \<le> i \<and> i < 35 + off \<and> i < length pa
      then bit_code (bin2Bcd (tm_hour t)) (i - off - 29) else pa5 ! i)" for i
    by (simp add: s6_def field_loop_nth len bit_code_def)
  have n7: "pa7 ! i = (if i = 35 + off \<and> i < length pa
      then parity_code (sum_list (low_bits 6 (bin2Bcd (tm_hour t)))) else fst s6 ! i)" for i
    by (auto simp add: pa7_def parity_slot_nth len par parity_code_def)
  have n8: "fst s8 ! i = (if 36 + off \<le> i \<and> i < 42 + off \<and> i < length pa
      then bit_code (bin2Bcd (tm_mday t)) (i - off - 36) else pa7 ! i)" for i
    by (simp add: s8_def field_loop_nth len bit_code_def)
  have n9: "fst s9 ! i = (if 42 + off \<le> i \<and> i < 45 + off \<and> i < length pa
      then bit_code (bin2Bcd (tm_wday t)) (i - off - 42) else fst s8 ! i)" for i
    by (simp add: s9_def field_loop_nth len bit_code_def)
  have n10: "fst s10 ! i = (if 45 + off \<le> i \<and> i < 50 + off \<and> i < length pa
      then bit_code (bin2Bcd (tm_mon t)) (i - off - 45) else fst s9 ! i)" for i
    by (simp add: s10_def field_loop_nth len bit_code_def)
  have n11: "fst s11 ! i = (if 50 + off \<le> i \<and> i < 58 + off \<and> i < length pa
      then bit_code (bin2Bcd (tm_year t - 2000)) (i - off - 50) else fst s10 ! i)" for i
    by (simp add: s11_def field_loop_nth len bit_code_def)
  have n12: "pa12 ! i = (if i = 58 + off \<and> i < length pa
      then parity_code (date_parity t) else fst s11 ! i)" for i
    by (auto simp add: pa12_def parity_slot_nth len par parity_code_def)
  have n13: "calculateArray off t pa ! i = (if i = 59 + off \<and> i < length pa then 0 else pa12 ! i)" for i
    by (auto simp add: calc nth_upd len)
  show ?thesis
  proof (cases "off \<le> i \<and> i < off + 60 \<and> i < length pa")
    case False
    then consider "i < off" | "off + 60 \<le> i" | "length pa \<le> i"
      by linarith
    then have "calculateArray off t pa ! i = pa ! i"
    proof cases
      case 1
      then show ?thesis
        unfolding n13 n12 n11 n10 n9 n8 n7 n6 n5 n4 n3 n2 n1 by simp
    next
      case 2
      then show ?thesis
        unfolding n13 n12 n11 n10 n9 n8 n7 n6 n5 n4 n3 n2 n1 by simp
    next
      case 3
      then show ?thesis
        unfolding n13 n12 n11 n10 n9 n8 n7 n6 n5 n4 n3 n2 n1 by simp
    qed
    with False show ?thesis by auto
  next
    case True
    then obtain j where j: "i = j + off" "j < 60" "j + off < length pa"
      by (metis add.commute le_Suc_ex nat_add_left_cancel_less)
    have sub: "j + off - off - c = j - c" for c by simp
    show ?thesis
      unfolding j n13 n12 n11 n10 n9 n8 n7 n6 n5 n4 n3 n2 n1 slot_code_def
      using j(2,3) by (simp add: sub)
  qed
qed

lemma bits_value_low_bits: "bits_value (low_bits n x) = take_bit n x"
proof (induction n arbitrary: x)
  case 0
  then show ?case by (simp add: low_bits_def)
next
  case (Suc n)
  show ?case
    by (simp add: low_bits_Suc Suc.IH take_bit_Suc and_one_eq drop_bit_Suc)
qed

lemma length_low_bits: "length (low_bits n x) = n"
  by (simp add: low_bits_def)

lemma take_low_bits: "take m (low_bits (m + n) x) = low_bits m x"
  by (simp add: low_bits_def take_map)

lemma drop_low_bits: "drop m (low_bits (m + n) x) = low_bits n (drop_bit m x)"
proof -
  have "drop m [0..<m + n] = map (\<lambda>k. k + m) [0..<n]"
    by (simp add: map_add_upt add.commute)
  then show ?thesis
    by (simp add: low_bits_def drop_map bit_drop_bit_eq comp_def add.commute)
qed

lemma bcd_decode_low_bits:
  "bcd_decode (low_bits (4 + w) x) = take_bit 4 x + 10 * take_bit w (drop_bit 4 x)"
  by (simp add: bcd_decode_def take_low_bits drop_low_bits bits_value_low_bits)

lemma bcd_decode_low_bits_short:
  "n \<le> 4 \<Longrightarrow> bcd_decode (low_bits n x) = take_bit n x"
  by (simp add: bcd_decode_def length_low_bits bits_value_low_bits)

lemma bin2Bcd_eq: "0 \<le> d \<Longrightarrow> bin2Bcd d = 16 * (d div 10) + d mod 10"
  by (simp add: bin2Bcd_def Let_def push_bit_eq_mult)

lemma bin2Bcd_digits:
  assumes "0 \<le> d"
  shows "take_bit 4 (bin2Bcd d) = d mod 10" and "drop_bit 4 (bin2Bcd d) = d div 10"
proof -
  have r: "0 \<le> d mod 10" "d mod 10 < 16"
    using pos_mod_bound [of 10 d] by simp_all
  show "take_bit 4 (bin2Bcd d) = d mod 10"
    using r by (simp add: bin2Bcd_eq assms take_bit_eq_mod)
  show "drop_bit 4 (bin2Bcd d) = d div 10"
    using r by (simp add: bin2Bcd_eq assms drop_bit_eq_div)
qed

lemma bcd_roundtrip:
  assumes "0 \<le> d" "d < 10 * 2 ^ w"
  shows "bcd_decode (low_bits (4 + w) (bin2Bcd d)) = d"
proof -
  have "0 \<le> d div 10" "d div 10 < 2 ^ w"
    using assms by simp_all
  then have "take_bit w (d div 10) = d div 10"
    by (simp add: take_bit_int_eq_self)
  then show ?thesis
    using assms by (simp add: bcd_decode_low_bits bin2Bcd_digits)
qed

lemma frame_bits_calculateArray:
  assumes "off + 60 \<le> length pa" "hi \<le> 60"
  shows "frame_bits (calculateArray off t pa) off lo hi = map (\<lambda>n. slot_code t n - 1) [lo..<hi]"
proof -
  have "calculateArray off t pa ! (n + off) = slot_code t n" if "n < hi" for n
    using that assms by (simp add: calculateArray_nth_gen)
  then show ?thesis
    unfolding frame_bits_def by (intro map_cong refl) simp
qed

lemma bit_code_minus: "bit_code x k - 1 = of_bool (bit x k)"
  by (simp add: bit_code_def)

lemma map_shift_low_bits:
  "map (\<lambda>n. of_bool (bit x (n - lo))) [lo..<lo + w] = low_bits w x"
proof -
  have "[lo..<lo + w] = map (\<lambda>k. k + lo) [0..<w]"
    by (simp add: map_add_upt add.commute)
  then show ?thesis
    by (simp add: low_bits_def comp_def)
qed

lemma field_bits:
  assumes "off + 60 \<le> length pa" "lo + w \<le> 60"
    and "\<And>n. lo \<le> n \<Longrightarrow> n < lo + w \<Longrightarrow> slot_code t n = bit_code x (n - lo)"
  shows "frame_bits (calculateArray off t pa) off lo (lo + w) = low_bits w x"
proof -
  have "map (\<lambda>n. slot_code t n - 1) [lo..<lo + w] = map (\<lambda>n. of_bool (bit x (n - lo))) [lo..<lo + w]"
    by (intro map_cong refl) (simp add: assms(3) bit_code_minus)
  then show ?thesis
    using assms(1,2) by (simp only: frame_bits_calculateArray map_shift_low_bits)
qed

lemma slot_code_min: "21 \<le> n \<Longrightarrow> n < 28 \<Longrightarrow> slot_code t n = bit_code (bin2Bcd (tm_min t)) (n - 21)"
  by (simp add: slot_code_def)

lemma minute_bits:
  assumes "off + 60 \<le> length pa"
  shows "frame_bits (calculateArray off t pa) off 21 28 = low_bits 7 (bin2Bcd (tm_min t))"
proof -
  have "frame_bits (calculateArray off t pa) off 21 (21 + 7) = low_bits 7 (bin2Bcd (tm_min t))"
    by (rule field_bits [OF assms]) (simp_all add: slot_code_min)
  then show ?thesis by simp
qed

lemma frame_bits_snoc:
  "lo \<le> hi \<Longrightarrow> frame_bits pa off lo (Suc hi) = frame_bits pa off lo hi @ [pa ! (hi + off) - 1]"
  by (simp add: frame_bits_def)

lemma frame_bits_21_29:
  "frame_bits pa off 21 29 = frame_bits pa off 21 28 @ [pa ! (28 + off) - 1]"
  using frame_bits_snoc [of 21 28 pa off] by simp

lemma parity_code_even: "even (s + (parity_code s - 1))"
  by (simp add: parity_code_def)

lemma parity_code_range: "parity_code s \<in> {1, 2}"
  by (simp add: parity_code_def)

lemma slot_code_wday: "42 \<le> n \<Longrightarrow> n < 45 \<Longrightarrow> slot_code t n = bit_code (bin2Bcd (tm_wday t)) (n - 42)"
  by (simp add: slot_code_def)

lemma slot_code_mon: "45 \<le> n \<Longrightarrow> n < 50 \<Longrightarrow> slot_code t n = bit_code (bin2Bcd (tm_mon t)) (n - 45)"
  by (simp add: slot_code_def)

lemma slot_code_year: "50 \<le> n \<Longrightarrow> n < 58 \<Longrightarrow> slot_code t n = bit_code (bin2Bcd (tm_year t - 2000)) (n - 50)"
  by (simp add: slot_code_def)

lemma wday_bits:
  assumes "off + 60 \<le> length pa"
  shows "frame_bits (calculateArray off t pa) off 42 45 = low_bits 3 (bin2Bcd (tm_wday t))"
proof -
  have "frame_bits (calculateArray off t pa) off 42 (42 + 3) = low_bits 3 (bin2Bcd (tm_wday t))"
    by (rule field_bits [OF assms]) (simp_all add: slot_code_wday)
  then show ?thesis by simp
qed

lemma mon_bits:
  assumes "off + 60 \<le> length pa"
  shows "frame_bits (calculateArray off t pa) off 45 50 = low_bits 5 (bin2Bcd (tm_mon t))"
proof -
  have "frame_bits (calculateArray off t pa) off 45 (45 + 5) = low_bits 5 (bin2Bcd (tm_mon t))"
    by (rule field_bits [OF assms]) (simp_all add: slot_code_mon)
  then show ?thesis by simp
qed

lemma year_bits:
  assumes "off + 60 \<le> length pa"
  shows "frame_bits (calculateArray off t pa) off 50 58 = low_bits 8 (bin2Bcd (tm_year t - 2000))"
proof -
  have "frame_bits (calculateArray off t pa) off 50 (50 + 8) = low_bits 8 (bin2Bcd (tm_year t - 2000))"
    by (rule field_bits [OF assms]) (simp_all add: slot_code_year)
  then show ?thesis by simp
qed

lemma low_bits_0: "low_bits 0 x = []"
  by (simp add: low_bits_def)

section \<open>Calendar, composer and emitter lemmas\<close>

lemma slot_code_range: "slot_code t j \<in> {0, 1, 2}"
  by (simp add: slot_code_def bit_code_def parity_code_def)

lemma calculateArray_range:
  assumes "\<forall>i<length pa. pa ! i \<in> {0, 1, 2}" "i < length pa"
  shows "calculateArray off t pa ! i \<in> {0, 1, 2}"
  using assms slot_code_range [of t "i - off"] by (simp add: calculateArray_nth_gen)

lemma pulseArray_compose:
  "pulseArray (readAndDecodeTime now s) =
     (let t1 = mktime (now\<lparr>tm_sec := tm_sec now + timeCorrectionOffset s\<rparr>);
          t2 = mktime (t1\<lparr>tm_min := tm_min t1 + 1\<rparr>);
          t3 = mktime (t2\<lparr>tm_min := tm_min t2 + 1\<rparr>)
      in if tm_sec t1 > 56 then pulseArray s
         else calculateArray 122 t3 (calculateArray 62 t2 (calculateArray 2 t1 (pulseArray s))))"
  by (simp add: readAndDecodeTime_def Let_def delay_def FirstMinutePulseBegin_def
      SecondMinutePulseBegin_def ThirdMinutePulseBegin_def)

lemma compose_other_fields:
  "pulseCount (readAndDecodeTime now s) = pulseCount s"
  "partialpulseCount (readAndDecodeTime now s) = partialpulseCount s"
  "pinWrites (readAndDecodeTime now s) = pinWrites s"
  "timeCorrectionOffset (readAndDecodeTime now s) = timeCorrectionOffset s"
  by (simp_all add: readAndDecodeTime_def Let_def delay_def)

lemma dcfOutputOn_compose:
  "dcfOutputOn (readAndDecodeTime now s) =
     (if tm_sec (mktime (now\<lparr>tm_sec := tm_sec now + timeCorrectionOffset s\<rparr>)) > 56
      then dcfOutputOn s else 1)"
  by (simp add: readAndDecodeTime_def Let_def delay_def)

lemma three_frames_nth:
  assumes "length pa = 183"
  shows "calculateArray 122 t3 (calculateArray 62 t2 (calculateArray 2 t1 pa)) ! i =
     (if 2 \<le> i \<and> i < 62 then slot_code t1 (i - 2)
      else if 62 \<le> i \<and> i < 122 then slot_code t2 (i - 62)
      else if 122 \<le> i \<and> i < 182 then slot_code t3 (i - 122)
      else pa ! i)"
  using assms by (simp add: calculateArray_nth_gen calculateArray_length)

lemma dcf_inv_setup: "dcf_inv (setupDcf (initial_state offset))"
  by (simp add: dcf_inv_def setupDcf_def initial_state_def digitalWrite_def Let_def
      MaxPulseNumber_def nth_upd)

lemma dcf_inv_compose:
  assumes "dcf_inv s"
  shows "dcf_inv (readAndDecodeTime now s)"
proof -
  from assms have len: "length (pulseArray s) = 183"
    by (simp add: dcf_inv_def)
  show ?thesis
    using assms slot_code_range
    unfolding dcf_inv_def compose_other_fields dcfOutputOn_compose pulseArray_compose Let_def
    by (auto simp add: three_frames_nth [OF len] calculateArray_length)
qed

lemma dcf_inv_tick:
  assumes "dcf_inv s"
  shows "dcf_inv (dcfOut s)"
  using assms
  by (auto simp add: dcf_inv_def dcfOut_def Let_def digitalWrite_def MaxPulseNumber_def)

lemma dcf_inv_frame:
  assumes "dcf_inv s"
    and "ArrayOffset = FirstMinutePulseBegin \<or> ArrayOffset = SecondMinutePulseBegin
       \<or> ArrayOffset = ThirdMinutePulseBegin"
  shows "dcf_inv (s\<lparr>pulseArray := calculateArray ArrayOffset t (pulseArray s)\<rparr>)"
proof -
  from assms(2) have "ArrayOffset = 2 \<or> ArrayOffset = 62 \<or> ArrayOffset = 122"
    by (simp add: FirstMinutePulseBegin_def SecondMinutePulseBegin_def ThirdMinutePulseBegin_def)
  then show ?thesis
    using assms(1) slot_code_range [of t]
    by (auto simp add: dcf_inv_def calculateArray_length calculateArray_nth_gen)
qed

lemma reachable_inv: "reachable s \<Longrightarrow> dcf_inv s"
proof (induction rule: reachable.induct)
  case (reach_frame s ArrayOffset t)
  then show ?case by (simp add: dcf_inv_frame)
next
  case (reach_wait s ms)
  then show ?case by (simp add: dcf_inv_def delay_def)
next
  case (reach_activate s)
  then show ?case by (simp add: dcf_inv_def)
qed (simp_all add: dcf_inv_setup dcf_inv_tick dcf_inv_compose)

lemma ticks_within_slot:
  assumes "dcfOutputOn s = 1" "partialpulseCount s = 0" "j < 9"
  shows "(dcfOut ^^ Suc j) s =
     s\<lparr>partialpulseCount := int j + 1,
       pinWrites := pinWrites s @ slot_writes (pulseArray s ! nat (pulseCount s)) j\<rparr>"
  using assms(3)
proof (induction j)
  case 0
  then show ?case
    using assms(1,2) by (simp add: dcfOut_def Let_def digitalWrite_def slot_writes_def)
next
  case (Suc j)
  then have IH: "(dcfOut ^^ Suc j) s =
     s\<lparr>partialpulseCount := int j + 1,
       pinWrites := pinWrites s @ slot_writes (pulseArray s ! nat (pulseCount s)) j\<rparr>"
    by simp
  have "(dcfOut ^^ Suc (Suc j)) s = dcfOut ((dcfOut ^^ Suc j) s)"
    by simp
  also have "\<dots> = s\<lparr>partialpulseCount := int (Suc j) + 1,
       pinWrites := pinWrites s @ slot_writes (pulseArray s ! nat (pulseCount s)) (Suc j)\<rparr>"
    unfolding IH using assms(1) Suc.prems
    by (auto simp add: dcfOut_def Let_def digitalWrite_def slot_writes_def)
  finally show ?case .
qed

lemma tick_nine:
  assumes "dcfOutputOn s = 1" "partialpulseCount s = 0"
  shows "(dcfOut ^^ 10) s =
     (if pulseCount s = 182
      then s\<lparr>partialpulseCount := 0, pulseCount := 0, dcfOutputOn := 0,
             pinWrites := pinWrites s @ slot_writes (pulseArray s ! nat (pulseCount s)) 8\<rparr>
      else s\<lparr>partialpulseCount := 0, pulseCount := pulseCount s + 1,
             pinWrites := pinWrites s @ slot_writes (pulseArray s ! nat (pulseCount s)) 8\<rparr>)"
proof -
  define s9 where "s9 = s\<lparr>partialpulseCount := int 8 + 1,
       pinWrites := pinWrites s @ slot_writes (pulseArray s ! nat (pulseCount s)) 8\<rparr>"
  have a: "(dcfOut ^^ 10) s = dcfOut ((dcfOut ^^ Suc 8) s)"
    by (simp add: eval_nat_numeral)
  have b: "(dcfOut ^^ Suc 8) s = s9"
    unfolding s9_def by (rule ticks_within_slot [OF assms]) simp
  have c: "dcfOut s9 =
     (if pulseCount s = 182
      then s\<lparr>partialpulseCount := 0, pulseCount := 0, dcfOutputOn := 0,
             pinWrites := pinWrites s @ slot_writes (pulseArray s ! nat (pulseCount s)) 8\<rparr>
      else s\<lparr>partialpulseCount := 0, pulseCount := pulseCount s + 1,
             pinWrites := pinWrites s @ slot_writes (pulseArray s ! nat (pulseCount s)) 8\<rparr>)"
    using assms(1) by (simp add: s9_def dcfOut_def Let_def MaxPulseNumber_def)
  show ?thesis
    unfolding a b c ..
qed

lemma pinWrites_slot:
  assumes "dcfOutputOn s = 1" "partialpulseCount s = 0" "j < 10"
  shows "pinWrites ((dcfOut ^^ Suc j) s) =
     pinWrites s @ slot_writes (pulseArray s ! nat (pulseCount s)) j"
proof (cases "j < 9")
  case True
  then show ?thesis
    by (simp only: ticks_within_slot [OF assms(1,2) True]) simp
next
  case False
  with assms(3) have j: "j = 9" by simp
  have "Suc 9 = 10" by simp
  then show ?thesis
    unfolding j by (simp only: tick_nine [OF assms(1,2)]) (simp add: slot_writes_def)
qed

lemma days_in_month_bounds: "28 \<le> days_in_month mon year" "days_in_month mon year \<le> 31"
  by (simp_all add: days_in_month_def)

lemma days_up_fits:
  "mday \<le> days_in_month mon year \<Longrightarrow> days_up mday mon year = (mday, mon, year)"
  by (subst days_up.simps) simp

lemma days_up_next:
  assumes "mday = days_in_month mon year + 1"
  shows "days_up mday mon year = (if mon = 11 then (1, 0, year + 1) else (1, mon + 1, year))"
proof -
  have one: "1 \<le> days_in_month m y" for m y
    using days_in_month_bounds(1) [of m y] by simp
  show ?thesis
    using assms by (subst days_up.simps) (simp add: days_up_fits one)
qed

lemma days_up_valid:
  assumes "1 \<le> mday" "0 \<le> mon" "mon \<le> 11"
  shows "case days_up mday mon year of (d, m, y) \<Rightarrow>
           1 \<le> d \<and> d \<le> days_in_month m y \<and> 0 \<le> m \<and> m \<le> 11"
  using assms
proof (induction mday mon year rule: days_up.induct)
  case (1 mday mon year)
  show ?case
  proof (cases "mday > days_in_month mon year")
    case False
    with "1.prems" show ?thesis by (simp add: days_up_fits)
  next
    case True
    show ?thesis
    proof (cases "mon + 1 = 12")
      case True
      from "1.IH"(1) [OF \<open>mday > days_in_month mon year\<close> True] \<open>mday > days_in_month mon year\<close>
      show ?thesis
        using True by (subst days_up.simps) simp
    next
      case False
      from "1.IH"(2) [OF \<open>mday > days_in_month mon year\<close> False] \<open>mday > days_in_month mon year\<close> "1.prems"
      show ?thesis
        using False by (subst days_up.simps) simp
    qed
  qed
qed

lemma days_down_valid:
  assumes "mday \<le> days_in_month mon year" "0 \<le> mon" "mon \<le> 11"
  shows "case days_down mday mon year of (d, m, y) \<Rightarrow>
           1 \<le> d \<and> d \<le> days_in_month m y \<and> 0 \<le> m \<and> m \<le> 11"
  using assms
proof (induction mday mon year rule: days_down.induct)
  case (1 mday mon year)
  show ?case
  proof (cases "mday \<le> 0")
    case False
    with "1.prems" show ?thesis by (subst days_down.simps) simp
  next
    case True
    show ?thesis
    proof (cases "mon - 1 = -1")
      case m: True
      from "1.IH"(1) [OF True m] True
      show ?thesis
        using m by (subst days_down.simps) simp
    next
      case m: False
      from "1.IH"(2) [OF True m] True "1.prems"
      show ?thesis
        using m by (subst days_down.simps) simp
    qed
  qed
qed

lemma mktime_sec: "tm_sec (mktime t) = tm_sec t mod 60"
  by (simp add: mktime_def Let_def split_beta)

lemma mktime_isdst: "tm_isdst (mktime t) = tm_isdst t"
  by (simp add: mktime_def Let_def split_beta)

lemma mktime_valid: "valid_tm (mktime t)"
proof -
  define mday0 where "mday0 = tm_mday t + (tm_hour t + (tm_min t + tm_sec t div 60) div 60) div 24"
  have m: "0 \<le> tm_mon t mod 12" "tm_mon t mod 12 \<le> 11"
    using pos_mod_bound [of 12 "tm_mon t"] by simp_all
  have up: "case days_up mday0 (tm_mon t mod 12) (tm_year t + tm_mon t div 12) of (d, m, y) \<Rightarrow>
           1 \<le> d \<and> d \<le> days_in_month m y \<and> 0 \<le> m \<and> m \<le> 11" if "\<not> mday0 \<le> 0"
    using that m by (intro days_up_valid) simp_all
  have down: "case days_down mday0 (tm_mon t mod 12) (tm_year t + tm_mon t div 12) of (d, m, y) \<Rightarrow>
           1 \<le> d \<and> d \<le> days_in_month m y \<and> 0 \<le> m \<and> m \<le> 11" if "mday0 \<le> 0"
    using that m days_in_month_bounds(1) [of "tm_mon t mod 12" "tm_year t + tm_mon t div 12"]
    by (intro days_down_valid) simp_all
  have r: "0 \<le> x mod 60" "x mod 60 \<le> 59" "0 \<le> x mod 24" "x mod 24 \<le> 23" for x :: int
    using pos_mod_bound [of 60 x] pos_mod_bound [of 24 x] by simp_all
  show ?thesis
    using up down
    by (cases "mday0 \<le> 0")
      (simp_all add: valid_tm_def mktime_def Let_def split_beta mday0_def [symmetric] r)
qed

lemma carry_60:
  assumes "0 \<le> x" "x \<le> 59"
  shows "(x + 1) mod 60 = (if x = 59 then 0 else x + 1)"
    and "(x + 1) div 60 = (if x = 59 then 1 else (0::int))"
  using assms by (auto simp: div_pos_pos_trivial)

lemma carry_24:
  assumes "0 \<le> x" "x \<le> 23"
  shows "(x + 1) mod 24 = (if x = 23 then 0 else x + 1)"
    and "(x + 1) div 24 = (if x = 23 then 1 else (0::int))"
  using assms by (auto simp: div_pos_pos_trivial)

lemma carry_12:
  assumes "0 \<le> x" "x \<le> 11"
  shows "(x + 1) mod 12 = (if x = 11 then 0 else x + (1::int))"
  using assms by auto

lemma mktime_next_minute:
  assumes "valid_tm t"
  shows "mktime (t\<lparr>tm_min := tm_min t + 1\<rparr>) = next_minute t"
proof -
  from assms have v: "0 \<le> tm_sec t" "tm_sec t \<le> 59" "0 \<le> tm_min t" "tm_min t \<le> 59"
    "0 \<le> tm_hour t" "tm_hour t \<le> 23" "1 \<le> tm_mday t"
    "tm_mday t \<le> days_in_month (tm_mon t) (tm_year t)" "0 \<le> tm_mon t" "tm_mon t \<le> 11"
    by (simp_all add: valid_tm_def)
  have sec: "tm_sec t mod 60 = tm_sec t" "tm_sec t div 60 = 0"
    using v(1,2) by (simp_all add: div_pos_pos_trivial)
  have mon: "tm_mon t mod 12 = tm_mon t" "tm_mon t div 12 = 0"
    using v(9,10) by (simp_all add: div_pos_pos_trivial)
  have hour: "tm_hour t mod 24 = tm_hour t" "tm_hour t div 24 = 0"
    using v(5,6) by (simp_all add: div_pos_pos_trivial)
  consider (a) "tm_min t \<noteq> 59"
    | (b) "tm_min t = 59" "tm_hour t \<noteq> 23"
    | (c) "tm_min t = 59" "tm_hour t = 23" "tm_mday t \<noteq> days_in_month (tm_mon t) (tm_year t)"
    | (d) "tm_min t = 59" "tm_hour t = 23" "tm_mday t = days_in_month (tm_mon t) (tm_year t)"
    by blast
  then show ?thesis
  proof cases
    case a
    then show ?thesis
      using v by (simp add: mktime_def next_minute_def Let_def sec mon hour carry_60
          days_up_fits)
  next
    case b
    then show ?thesis
      using v by (simp add: mktime_def next_minute_def Let_def sec mon carry_60 carry_24
          days_up_fits)
  next
    case c
    then have "tm_mday t + 1 \<le> days_in_month (tm_mon t) (tm_year t)"
      using v(8) by simp
    with c show ?thesis
      using v by (simp add: mktime_def next_minute_def Let_def sec mon carry_60 carry_24
          days_up_fits)
  next
    case d
    then show ?thesis
      using v by (simp add: mktime_def next_minute_def Let_def sec mon carry_60 carry_24
          days_up_next)
  qed
qed

lemma next_minute_valid:
  assumes "valid_tm t"
  shows "valid_tm (next_minute t)"
  using mktime_valid [of "t\<lparr>tm_min := tm_min t + 1\<rparr>"] by (simp add: mktime_next_minute [OF assms])

lemma minute_frame_nth: "j < 60 \<Longrightarrow> minute_frame t ! j = slot_code t j"
  by (simp add: minute_frame_def calculateArray_nth_gen)

lemma length_minute_frame: "length (minute_frame t) = 60"
  by (simp add: minute_frame_def calculateArray_length)

lemma slot_code_hour: "29 \<le> n \<Longrightarrow> n < 35 \<Longrightarrow> slot_code t n = bit_code (bin2Bcd (tm_hour t)) (n - 29)"
  by (simp add: slot_code_def)

lemma slot_code_mday: "36 \<le> n \<Longrightarrow> n < 42 \<Longrightarrow> slot_code t n = bit_code (bin2Bcd (tm_mday t)) (n - 36)"
  by (simp add: slot_code_def)

lemma hour_bits:
  assumes "off + 60 \<le> length pa"
  shows "frame_bits (calculateArray off t pa) off 29 35 = low_bits 6 (bin2Bcd (tm_hour t))"
proof -
  have "frame_bits (calculateArray off t pa) off 29 (29 + 6) = low_bits 6 (bin2Bcd (tm_hour t))"
    by (rule field_bits [OF assms]) (simp_all add: slot_code_hour)
  then show ?thesis by simp
qed

lemma mday_bits:
  assumes "off + 60 \<le> length pa"
  shows "frame_bits (calculateArray off t pa) off 36 42 = low_bits 6 (bin2Bcd (tm_mday t))"
proof -
  have "frame_bits (calculateArray off t pa) off 36 (36 + 6) = low_bits 6 (bin2Bcd (tm_mday t))"
    by (rule field_bits [OF assms]) (simp_all add: slot_code_mday)
  then show ?thesis by simp
qed

lemma minute_decode:
  assumes "off + 60 \<le> length pa" "0 \<le> tm_min t" "tm_min t \<le> 59"
  shows "bcd_decode (frame_bits (calculateArray off t pa) off 21 28) = tm_min t"
proof -
  have "bcd_decode (low_bits (4 + 3) (bin2Bcd (tm_min t))) = tm_min t"
    by (rule bcd_roundtrip) (use assms in simp_all)
  then show ?thesis
    using assms(1) by (simp add: minute_bits)
qed

lemma hour_decode:
  assumes "off + 60 \<le> length pa" "0 \<le> tm_hour t" "tm_hour t \<le> 23"
  shows "bcd_decode (frame_bits (calculateArray off t pa) off 29 35) = tm_hour t"
proof -
  have "bcd_decode (low_bits (4 + 2) (bin2Bcd (tm_hour t))) = tm_hour t"
    by (rule bcd_roundtrip) (use assms in simp_all)
  then show ?thesis
    using assms(1) by (simp add: hour_bits)
qed

lemma mday_decode:
  assumes "off + 60 \<le> length pa" "0 \<le> tm_mday t" "tm_mday t \<le> 31"
  shows "bcd_decode (frame_bits (calculateArray off t pa) off 36 42) = tm_mday t"
proof -
  have "bcd_decode (low_bits (4 + 2) (bin2Bcd (tm_mday t))) = tm_mday t"
    by (rule bcd_roundtrip) (use assms in simp_all)
  then show ?thesis
    using assms(1) by (simp add: mday_bits)
qed

lemma frame_bits_cong:
  assumes "\<And>n. lo \<le> n \<Longrightarrow> n < hi \<Longrightarrow> pa ! (n + off) = pa' ! (n + off)"
  shows "frame_bits pa off lo hi = frame_bits pa' off lo hi"
  unfolding frame_bits_def by (rule map_cong) (simp_all add: assms)

text \<open>The buffer after a composition that is not skipped.\<close>

lemma compose_buffer:
  assumes "tm_sec (corrected_time now s) \<le> 56"
  shows "pulseArray (readAndDecodeTime now s) =
     calculateArray 122 (next_minute (next_minute (corrected_time now s)))
       (calculateArray 62 (next_minute (corrected_time now s))
         (calculateArray 2 (corrected_time now s) (pulseArray s)))"
proof -
  have v1: "valid_tm (corrected_time now s)"
    by (simp add: corrected_time_def mktime_valid)
  then have v2: "valid_tm (next_minute (corrected_time now s))"
    by (rule next_minute_valid)
  show ?thesis
    using assms
    by (simp add: pulseArray_compose Let_def corrected_time_def [symmetric]
        mktime_next_minute [OF v1] mktime_next_minute [OF v2])
qed

lemma compose_frame_bits:
  assumes "length (pulseArray s) = 183" "tm_sec (corrected_time now s) \<le> 56" "hi \<le> 60"
  shows "frame_bits (pulseArray (readAndDecodeTime now s)) 2 lo hi =
           frame_bits (calculateArray 2 (corrected_time now s) (pulseArray s)) 2 lo hi"
    and "frame_bits (pulseArray (readAndDecodeTime now s)) 62 lo hi =
           frame_bits (calculateArray 62 (next_minute (corrected_time now s)) (pulseArray s)) 62 lo hi"
    and "frame_bits (pulseArray (readAndDecodeTime now s)) 122 lo hi =
           frame_bits (calculateArray 122 (next_minute (next_minute (corrected_time now s))) (pulseArray s)) 122 lo hi"
  using assms(1,3)
  by (auto intro!: frame_bits_cong
      simp add: compose_buffer [OF assms(2)] calculateArray_length calculateArray_nth_gen)

lemma compose_frames:
  assumes "length (pulseArray s) = 183" "tm_sec (corrected_time now s) \<le> 56"
  shows "take 60 (drop 2 (pulseArray (readAndDecodeTime now s))) = minute_frame (corrected_time now s)"
    and "take 60 (drop 62 (pulseArray (readAndDecodeTime now s))) =
           minute_frame (next_minute (corrected_time now s))"
    and "take 60 (drop 122 (pulseArray (readAndDecodeTime now s))) =
           minute_frame (next_minute (next_minute (corrected_time now s)))"
  using assms(1)
  by (auto intro!: nth_equalityI
      simp add: compose_buffer [OF assms(2)] three_frames_nth calculateArray_length
        length_minute_frame minute_frame_nth)

lemma next_minute_fields:
  "tm_sec (next_minute t) = tm_sec t"
  "tm_min (next_minute t) = (if tm_min t = 59 then 0 else tm_min t + 1)"
  "tm_hour (next_minute t) =
     (if tm_min t = 59 then (if tm_hour t = 23 then 0 else tm_hour t + 1) else tm_hour t)"
  "tm_mday (next_minute t) =
     (if tm_min t = 59 \<and> tm_hour t = 23
      then (if tm_mday t = days_in_month (tm_mon t) (tm_year t) then 1 else tm_mday t + 1)
      else tm_mday t)"
  "tm_mon (next_minute t) =
     (if tm_min t = 59 \<and> tm_hour t = 23 \<and> tm_mday t = days_in_month (tm_mon t) (tm_year t)
      then (if tm_mon t = 11 then 0 else tm_mon t + 1) else tm_mon t)"
  "tm_year (next_minute t) =
     (if tm_min t = 59 \<and> tm_hour t = 23 \<and> tm_mday t = days_in_month (tm_mon t) (tm_year t)
         \<and> tm_mon t = 11
      then tm_year t + 1 else tm_year t)"
  by (simp_all add: next_minute_def Let_def)

lemma valid_tm_fields:
  assumes "valid_tm t"
  shows "0 \<le> tm_sec t" "tm_sec t \<le> 59" "0 \<le> tm_min t" "tm_min t \<le> 59"
    "0 \<le> tm_hour t" "tm_hour t \<le> 23" "0 \<le> tm_mday t" "tm_mday t \<le> 31"
    "0 \<le> tm_mon t" "tm_mon t \<le> 11"
  using assms days_in_month_bounds(2) [of "tm_mon t" "tm_year t"]
  by (simp_all add: valid_tm_def)

lemma frame_decode:
  assumes "off + 60 \<le> length pa" "valid_tm t"
  shows "bcd_decode (frame_bits (calculateArray off t pa) off 21 28) = tm_min t"
    and "bcd_decode (frame_bits (calculateArray off t pa) off 29 35) = tm_hour t"
    and "bcd_decode (frame_bits (calculateArray off t pa) off 36 42) = tm_mday t"
  using assms(1) valid_tm_fields [OF assms(2)]
  by (simp_all add: minute_decode hour_decode mday_decode)

lemma example_state_fields:
  "length (pulseArray example_state) = 183" "timeCorrectionOffset example_state = 0"
  "pulseCount example_state = 0" "partialpulseCount example_state = 0"
  "dcfOutputOn example_state = 0" "delays example_state = []" "pinWrites example_state = [0]"
  by (simp_all add: example_state_def setupDcf_def initial_state_def digitalWrite_def Let_def
      MaxPulseNumber_def)

lemma reachable_example: "reachable example_state"
  unfolding example_state_def by (rule reach_setup)

lemma corrected_example:
  "corrected_time tm_2024_12_31 example_state = tm_2024_12_31"
  by (simp add: corrected_time_def example_state_fields mktime_def Let_def tm_2024_12_31_def
      days_up_fits days_in_month_def is_leap_year_def days_from_civil_def day_of_year_def)

lemma corrected_sec_plain:
  assumes "timeCorrectionOffset s = 0" "0 \<le> tm_sec now" "tm_sec now \<le> 59"
  shows "tm_sec (corrected_time now s) = tm_sec now"
  using assms by (simp add: corrected_time_def mktime_sec)

lemma delays_compose:
  "delays (readAndDecodeTime now s) =
     (if tm_sec (corrected_time now s) > 56 then delays s
      else delays s @
        [(58 - tm_sec (mktime (mktime (corrected_time now s\<lparr>tm_min := tm_min (corrected_time now s) + 1\<rparr>)
            \<lparr>tm_min := tm_min (mktime (corrected_time now s\<lparr>tm_min := tm_min (corrected_time now s) + 1\<rparr>)) + 1\<rparr>))) * 1000,
         150000])"
  by (simp add: readAndDecodeTime_def Let_def delay_def corrected_time_def)

lemma mktime_keeps_sec:
  "tm_sec (mktime (mktime t\<lparr>tm_min := m\<rparr>)) = tm_sec (mktime t)"
  by (simp add: mktime_sec)

text \<open>Whole slots: ten ticks from the start of a slot that is not the last reach the
  start of the next one.\<close>

lemma slots_run:
  assumes "dcfOutputOn s = 1" "partialpulseCount s = 0" "pulseCount s + int k \<le> 182"
  shows "dcfOutputOn ((dcfOut ^^ (10 * k)) s) = 1
    \<and> partialpulseCount ((dcfOut ^^ (10 * k)) s) = 0
    \<and> pulseCount ((dcfOut ^^ (10 * k)) s) = pulseCount s + int k
    \<and> pulseArray ((dcfOut ^^ (10 * k)) s) = pulseArray s"
  using assms(3)
proof (induction k)
  case 0
  then show ?case by (simp add: assms(1,2))
next
  case (Suc k)
  define u where "u = (dcfOut ^^ (10 * k)) s"
  from Suc have u: "dcfOutputOn u = 1" "partialpulseCount u = 0"
    "pulseCount u = pulseCount s + int k" "pulseArray u = pulseArray s"
    by (simp_all add: u_def)
  have "10 * Suc k = 10 + 10 * k"
    by simp
  then have "(dcfOut ^^ (10 * Suc k)) s = (dcfOut ^^ 10) u"
    by (simp only: funpow_add u_def o_apply)
  moreover have "pulseCount u \<noteq> 182"
    using Suc.prems u(3) by simp
  ultimately show ?case
    using u by (simp add: tick_nine [OF u(1,2)])
qed

lemma reachable_ticks: "reachable s \<Longrightarrow> reachable ((dcfOut ^^ n) s)"
  by (induction n) (simp_all add: reach_tick)

text \<open>The year end of 2027 under the modelled normalisation.\<close>

lemma corrected_2027:
  "corrected_time tm_2027_12_31 example_state = tm_2027_12_31"
  by (simp add: corrected_time_def example_state_fields mktime_def Let_def tm_2027_12_31_def
      days_up_fits days_in_month_def is_leap_year_def days_from_civil_def day_of_year_def)

lemma next_minute_2027:
  "tm_mon (next_minute tm_2027_12_31) = 0" "tm_year (next_minute tm_2027_12_31) = 128"
  "tm_min (next_minute tm_2027_12_31) = 0" "tm_hour (next_minute tm_2027_12_31) = 0"
  "tm_mday (next_minute tm_2027_12_31) = 1"
  by (simp_all add: next_minute_fields tm_2027_12_31_def days_in_month_def)

section \<open>Claims about the minute-frame builder\<close>

text \<open>Claim C1. For every snapshot with a minute in 0..59, whatever the offset and the
  previous contents of the buffer, \<open>calculateArray\<close> stores in slots 21..27 of its
  frame the BCD encoding of the minute (tens digit in the high nibble), least significant
  bit first, with code 1 for a 0 bit and code 2 for a 1 bit; BCD-decoding the seven bits
  gives the minute back; slot 28 holds a pulse code (1 or 2), and the eight bits of slots
  21..28 have an even number of ones.\<close>

theorem calculateArray_minute_roundtrip:
  assumes "ArrayOffset + 60 \<le> length pa" and "0 \<le> tm_min t" and "tm_min t \<le> 59"
  shows "(\<forall>k<7. calculateArray ArrayOffset t pa ! (21 + k + ArrayOffset) =
            (if bit (16 * (tm_min t div 10) + tm_min t mod 10) k then 2 else 1))
       \<and> bcd_decode (frame_bits (calculateArray ArrayOffset t pa) ArrayOffset 21 28) = tm_min t
       \<and> calculateArray ArrayOffset t pa ! (28 + ArrayOffset) \<in> {1, 2}
       \<and> even (sum_list (frame_bits (calculateArray ArrayOffset t pa) ArrayOffset 21 29))"
proof (intro conjI allI impI)
  fix k :: nat
  assume "k < 7"
  then have "calculateArray ArrayOffset t pa ! (21 + k + ArrayOffset) = slot_code t (21 + k)"
    using assms(1) by (simp add: calculateArray_nth_gen)
  also have "\<dots> = bit_code (bin2Bcd (tm_min t)) k"
    using \<open>k < 7\<close> by (simp add: slot_code_min)
  finally show "calculateArray ArrayOffset t pa ! (21 + k + ArrayOffset) =
      (if bit (16 * (tm_min t div 10) + tm_min t mod 10) k then 2 else 1)"
    using assms(2) by (simp add: bit_code_def bin2Bcd_eq)
next
  have "bcd_decode (low_bits (4 + 3) (bin2Bcd (tm_min t))) = tm_min t"
    by (rule bcd_roundtrip) (use assms in simp_all)
  then show "bcd_decode (frame_bits (calculateArray ArrayOffset t pa) ArrayOffset 21 28) = tm_min t"
    using assms(1) by (simp add: minute_bits)
next
  have p: "calculateArray ArrayOffset t pa ! (28 + ArrayOffset) =
      parity_code (sum_list (low_bits 7 (bin2Bcd (tm_min t))))"
    using assms(1) by (simp add: calculateArray_nth_gen slot_code_def)
  show "calculateArray ArrayOffset t pa ! (28 + ArrayOffset) \<in> {1, 2}"
    unfolding p by (rule parity_code_range)
  have "frame_bits (calculateArray ArrayOffset t pa) ArrayOffset 21 29 =
      low_bits 7 (bin2Bcd (tm_min t)) @ [parity_code (sum_list (low_bits 7 (bin2Bcd (tm_min t)))) - 1]"
    using assms(1) by (simp only: frame_bits_21_29 minute_bits p)
  then show "even (sum_list (frame_bits (calculateArray ArrayOffset t pa) ArrayOffset 21 29))"
    using parity_code_even [of "sum_list (low_bits 7 (bin2Bcd (tm_min t)))"] by simp
qed

text \<open>The theorem at minute 59, at the first frame of an empty buffer.\<close>

theorem calculateArray_minute_roundtrip_witness:
  "bcd_decode (frame_bits (calculateArray 2 tm_2024_03_31 (replicate 183 0)) 2 21 28) = 59
   \<and> calculateArray 2 tm_2024_03_31 (replicate 183 0) ! 30 \<in> {1, 2}
   \<and> even (sum_list (frame_bits (calculateArray 2 tm_2024_03_31 (replicate 183 0)) 2 21 29))"
proof -
  have h: "2 + 60 \<le> length (replicate 183 (0::int))" "0 \<le> tm_min tm_2024_03_31"
    "tm_min tm_2024_03_31 \<le> 59"
    by (simp_all add: tm_2024_03_31_def)
  have m: "tm_min tm_2024_03_31 = 59"
    by (simp add: tm_2024_03_31_def)
  from calculateArray_minute_roundtrip [OF h] show ?thesis
    unfolding m by simp
qed

text \<open>Claim C2, at the failing input. For March (\<open>tm_mon = 2\<close>, calendar month 3) the
  month slots 45..49 hold the bits of 2, so the frame decodes to month 2: the builder
  encodes \<open>tm_mon\<close>, which counts from 0, and not the calendar month 1..12.\<close>

theorem calculateArray_month_off_by_one:
  "frame_bits (calculateArray 2 tm_2024_03_31 (replicate 183 0)) 2 45 50 = [0, 1, 0, 0, 0]
   \<and> bcd_decode (frame_bits (calculateArray 2 tm_2024_03_31 (replicate 183 0)) 2 45 50) = 2"
proof -
  have "low_bits 5 (bin2Bcd (tm_mon tm_2024_03_31)) = [0, 1, 0, 0, 0]"
    by (simp add: tm_2024_03_31_def bin2Bcd_def low_bits_Suc low_bits_0 eval_nat_numeral)
  then show ?thesis
    by (simp add: mon_bits bcd_decode_def)
qed

text \<open>Claim C3, at the failing input. For the year 2024 (\<open>tm_year = 124\<close>) the year
  slots 50..57 hold the eight low bits of \<open>124 - 2000 = -1876\<close>, nibbles 12 and 10,
  which is no BCD number and decodes to 112, not to 24: \<open>tm_year\<close> counts from 1900 and
  the builder subtracts 2000.\<close>

theorem calculateArray_year_wrong_base:
  "frame_bits (calculateArray 2 tm_2024_03_31 (replicate 183 0)) 2 50 58 = [0, 0, 1, 1, 0, 1, 0, 1]
   \<and> bcd_decode (frame_bits (calculateArray 2 tm_2024_03_31 (replicate 183 0)) 2 50 58) = 112"
proof -
  have "low_bits 8 (bin2Bcd (tm_year tm_2024_03_31 - 2000)) = [0, 0, 1, 1, 0, 1, 0, 1]"
    by (simp add: tm_2024_03_31_def bin2Bcd_def low_bits_Suc low_bits_0 eval_nat_numeral)
  then show ?thesis
    by (simp add: year_bits bcd_decode_def)
qed

text \<open>Claim C4, at the failing input. On a Sunday (\<open>tm_wday = 0\<close>) the weekday slots
  42..44 hold three 0 bits: the frame's weekday is 0, outside the range 1..7, and no
  mapping of 0 to 7 takes place.\<close>

theorem calculateArray_sunday_is_zero:
  "frame_bits (calculateArray 2 tm_2024_03_31 (replicate 183 0)) 2 42 45 = [0, 0, 0]
   \<and> bcd_decode (frame_bits (calculateArray 2 tm_2024_03_31 (replicate 183 0)) 2 42 45) = 0"
proof -
  have "low_bits 3 (bin2Bcd (tm_wday tm_2024_03_31)) = [0, 0, 0]"
    by (simp add: tm_2024_03_31_def bin2Bcd_def low_bits_Suc low_bits_0 eval_nat_numeral)
  then show ?thesis
    by (simp add: wday_bits bcd_decode_def)
qed

section \<open>Claims about the composer and the emitter\<close>



text \<open>Claim C6. For every composition that is not skipped, the first wait is
  \<open>(58 - s) * 1000\<close> milliseconds, \<open>s\<close> being the second of the corrected time read
  (tested against 56 before any frame is built), although the program reads \<open>tm_sec\<close>
  after advancing the structure by two minutes; the second wait is 150000 ms and the
  flag is set between them.\<close>

theorem readAndDecodeTime_alignment_delay:
  assumes "tm_sec (corrected_time now s) \<le> 56"
  shows "0 \<le> tm_sec (corrected_time now s)
    \<and> delays (readAndDecodeTime now s) =
        delays s @ [(58 - tm_sec (corrected_time now s)) * 1000, 150000]
    \<and> dcfOutputOn (readAndDecodeTime now s) = 1
    \<and> (timeCorrectionOffset s = 0 \<and> 0 \<le> tm_sec now \<and> tm_sec now \<le> 59 \<longrightarrow>
         delays (readAndDecodeTime now s) = delays s @ [(58 - tm_sec now) * 1000, 150000])"
proof -
  have nonneg: "0 \<le> tm_sec (corrected_time now s)"
    by (simp add: corrected_time_def mktime_sec)
  have keep: "tm_sec (mktime (mktime (corrected_time now s\<lparr>tm_min := tm_min (corrected_time now s) + 1\<rparr>)
            \<lparr>tm_min := tm_min (mktime (corrected_time now s\<lparr>tm_min := tm_min (corrected_time now s) + 1\<rparr>)) + 1\<rparr>))
      = tm_sec (corrected_time now s)"
    using nonneg assms by (simp add: mktime_sec)
  have d: "delays (readAndDecodeTime now s) =
        delays s @ [(58 - tm_sec (corrected_time now s)) * 1000, 150000]"
    using assms unfolding delays_compose keep by simp
  have on: "dcfOutputOn (readAndDecodeTime now s) = 1"
    using assms by (simp add: dcfOutputOn_compose corrected_time_def)
  from nonneg d on show ?thesis
    by (simp add: corrected_sec_plain)
qed

text \<open>The theorem at 23:59:30: the program waits 28 s.\<close>

theorem readAndDecodeTime_alignment_delay_witness:
  "delays (readAndDecodeTime tm_2024_12_31 example_state) = [28000, 150000]
   \<and> dcfOutputOn (readAndDecodeTime tm_2024_12_31 example_state) = 1"
proof -
  have h: "tm_sec (corrected_time tm_2024_12_31 example_state) \<le> 56"
    by (simp add: corrected_example) (simp add: tm_2024_12_31_def)
  have f: "tm_sec tm_2024_12_31 = 30"
    by (simp add: tm_2024_12_31_def)
  from readAndDecodeTime_alignment_delay [OF h] show ?thesis
    unfolding corrected_example by (simp add: f example_state_fields)
qed

text \<open>The relation between the three frames that does hold, under the calendar
  normalisation modelled above (no daylight-saving change inside the window): for every
  composition that is not skipped, the frames at slots 2..61, 62..121 and 122..181 are the
  builder's frames of the corrected time, of the calendar minute after it and of the
  minute after that; the decoded minute, hour and day of the month roll over; the
  snapshots' \<open>tm_mon\<close> and \<open>tm_year\<close> roll over, and the month and year slots carry
  \<open>bin2Bcd (tm_mon)\<close> and \<open>bin2Bcd (tm_year - 2000)\<close> of the rolled-over fields. It says
  nothing about what the month and year slots decode to.\<close>

lemma consecutive_minutes_in_model:
  assumes "length (pulseArray s) = 183" and "tm_sec (corrected_time now s) \<le> 56"
  shows "let t1 = corrected_time now s; t2 = next_minute t1; t3 = next_minute t2;
             buf = pulseArray (readAndDecodeTime now s);
             minute = (\<lambda>off. bcd_decode (frame_bits buf off 21 28));
             hour = (\<lambda>off. bcd_decode (frame_bits buf off 29 35));
             day = (\<lambda>off. bcd_decode (frame_bits buf off 36 42))
         in take 60 (drop 2 buf) = minute_frame t1
          \<and> take 60 (drop 62 buf) = minute_frame t2
          \<and> take 60 (drop 122 buf) = minute_frame t3
          \<and> minute 2 = tm_min t1 \<and> hour 2 = tm_hour t1 \<and> day 2 = tm_mday t1
          \<and> minute 62 = (minute 2 + 1) mod 60
          \<and> minute 122 = (minute 2 + 2) mod 60
          \<and> hour 62 = (if minute 2 = 59 then (hour 2 + 1) mod 24 else hour 2)
          \<and> hour 122 = (if minute 62 = 59 then (hour 62 + 1) mod 24 else hour 62)
          \<and> day 62 = (if minute 2 = 59 \<and> hour 2 = 23
                       then (if day 2 = days_in_month (tm_mon t1) (tm_year t1) then 1 else day 2 + 1)
                       else day 2)
          \<and> day 122 = (if minute 62 = 59 \<and> hour 62 = 23
                        then (if day 62 = days_in_month (tm_mon t2) (tm_year t2) then 1 else day 62 + 1)
                        else day 62)
          \<and> tm_mon t2 = (if minute 2 = 59 \<and> hour 2 = 23
                             \<and> day 2 = days_in_month (tm_mon t1) (tm_year t1)
                          then (tm_mon t1 + 1) mod 12 else tm_mon t1)
          \<and> tm_mon t3 = (if minute 62 = 59 \<and> hour 62 = 23
                             \<and> day 62 = days_in_month (tm_mon t2) (tm_year t2)
                          then (tm_mon t2 + 1) mod 12 else tm_mon t2)
          \<and> tm_year t2 = (if minute 2 = 59 \<and> hour 2 = 23
                              \<and> day 2 = days_in_month (tm_mon t1) (tm_year t1) \<and> tm_mon t1 = 11
                           then tm_year t1 + 1 else tm_year t1)
          \<and> tm_year t3 = (if minute 62 = 59 \<and> hour 62 = 23
                              \<and> day 62 = days_in_month (tm_mon t2) (tm_year t2) \<and> tm_mon t2 = 11
                           then tm_year t2 + 1 else tm_year t2)
          \<and> frame_bits buf 62 45 50 = low_bits 5 (bin2Bcd (tm_mon t2))
          \<and> frame_bits buf 122 45 50 = low_bits 5 (bin2Bcd (tm_mon t3))
          \<and> frame_bits buf 62 50 58 = low_bits 8 (bin2Bcd (tm_year t2 - 2000))
          \<and> frame_bits buf 122 50 58 = low_bits 8 (bin2Bcd (tm_year t3 - 2000))"
proof -
  define t1 where "t1 = corrected_time now s"
  define t2 where "t2 = next_minute t1"
  define t3 where "t3 = next_minute t2"
  define buf where "buf = pulseArray (readAndDecodeTime now s)"
  have v1: "valid_tm t1"
    by (simp add: t1_def corrected_time_def mktime_valid)
  then have v2: "valid_tm t2"
    unfolding t2_def by (rule next_minute_valid)
  then have v3: "valid_tm t3"
    unfolding t3_def by (rule next_minute_valid)
  have len: "2 + 60 \<le> length (pulseArray s)" "62 + 60 \<le> length (pulseArray s)"
    "122 + 60 \<le> length (pulseArray s)"
    using assms(1) by simp_all
  have frames: "take 60 (drop 2 buf) = minute_frame t1" "take 60 (drop 62 buf) = minute_frame t2"
    "take 60 (drop 122 buf) = minute_frame t3"
    unfolding buf_def t3_def t2_def t1_def by (rule compose_frames [OF assms])+
  have f1: "bcd_decode (frame_bits buf 2 21 28) = tm_min t1"
    "bcd_decode (frame_bits buf 2 29 35) = tm_hour t1"
    "bcd_decode (frame_bits buf 2 36 42) = tm_mday t1"
    unfolding buf_def t1_def
    by (simp_all add: compose_frame_bits(1) [OF assms] frame_decode [OF len(1) v1 [unfolded t1_def]])
  have f2: "bcd_decode (frame_bits buf 62 21 28) = tm_min t2"
    "bcd_decode (frame_bits buf 62 29 35) = tm_hour t2"
    "bcd_decode (frame_bits buf 62 36 42) = tm_mday t2"
    unfolding buf_def t2_def t1_def
    by (simp_all add: compose_frame_bits(2) [OF assms]
        frame_decode [OF len(2) v2 [unfolded t2_def t1_def]])
  have f3: "bcd_decode (frame_bits buf 122 21 28) = tm_min t3"
    "bcd_decode (frame_bits buf 122 29 35) = tm_hour t3"
    "bcd_decode (frame_bits buf 122 36 42) = tm_mday t3"
    unfolding buf_def t3_def t2_def t1_def
    by (simp_all add: compose_frame_bits(3) [OF assms]
        frame_decode [OF len(3) v3 [unfolded t3_def t2_def t1_def]])
  note b1 = valid_tm_fields [OF v1] and b2 = valid_tm_fields [OF v2]
  have m2: "tm_min t2 = (tm_min t1 + 1) mod 60"
    using b1 by (simp add: t2_def next_minute_fields carry_60)
  have m3: "tm_min t3 = (tm_min t2 + 1) mod 60"
    using b2 by (simp add: t3_def next_minute_fields carry_60)
  have m3': "tm_min t3 = (tm_min t1 + 2) mod 60"
    unfolding m3 m2 by (simp add: mod_simps add.commute)
  have h2: "tm_hour t2 = (if tm_min t1 = 59 then (tm_hour t1 + 1) mod 24 else tm_hour t1)"
    using b1 by (simp add: t2_def next_minute_fields carry_24)
  have h3: "tm_hour t3 = (if tm_min t2 = 59 then (tm_hour t2 + 1) mod 24 else tm_hour t2)"
    using b2 by (simp add: t3_def next_minute_fields carry_24)
  have d2: "tm_mday t2 = (if tm_min t1 = 59 \<and> tm_hour t1 = 23
      then (if tm_mday t1 = days_in_month (tm_mon t1) (tm_year t1) then 1 else tm_mday t1 + 1)
      else tm_mday t1)"
    by (simp add: t2_def next_minute_fields)
  have d3: "tm_mday t3 = (if tm_min t2 = 59 \<and> tm_hour t2 = 23
      then (if tm_mday t2 = days_in_month (tm_mon t2) (tm_year t2) then 1 else tm_mday t2 + 1)
      else tm_mday t2)"
    by (simp add: t3_def next_minute_fields)
  have mo2: "tm_mon t2 = (if tm_min t1 = 59 \<and> tm_hour t1 = 23
        \<and> tm_mday t1 = days_in_month (tm_mon t1) (tm_year t1)
      then (tm_mon t1 + 1) mod 12 else tm_mon t1)"
    using b1 by (simp add: t2_def next_minute_fields carry_12)
  have mo3: "tm_mon t3 = (if tm_min t2 = 59 \<and> tm_hour t2 = 23
        \<and> tm_mday t2 = days_in_month (tm_mon t2) (tm_year t2)
      then (tm_mon t2 + 1) mod 12 else tm_mon t2)"
    using b2 by (simp add: t3_def next_minute_fields carry_12)
  have y2: "tm_year t2 = (if tm_min t1 = 59 \<and> tm_hour t1 = 23
        \<and> tm_mday t1 = days_in_month (tm_mon t1) (tm_year t1) \<and> tm_mon t1 = 11
      then tm_year t1 + 1 else tm_year t1)"
    by (simp add: t2_def next_minute_fields)
  have y3: "tm_year t3 = (if tm_min t2 = 59 \<and> tm_hour t2 = 23
        \<and> tm_mday t2 = days_in_month (tm_mon t2) (tm_year t2) \<and> tm_mon t2 = 11
      then tm_year t2 + 1 else tm_year t2)"
    by (simp add: t3_def next_minute_fields)
  have fb2: "frame_bits buf 62 45 50 = low_bits 5 (bin2Bcd (tm_mon t2))"
    "frame_bits buf 62 50 58 = low_bits 8 (bin2Bcd (tm_year t2 - 2000))"
    unfolding buf_def t2_def t1_def
    by (simp_all add: compose_frame_bits(2) [OF assms] mon_bits [OF len(2)] year_bits [OF len(2)])
  have fb3: "frame_bits buf 122 45 50 = low_bits 5 (bin2Bcd (tm_mon t3))"
    "frame_bits buf 122 50 58 = low_bits 8 (bin2Bcd (tm_year t3 - 2000))"
    unfolding buf_def t3_def t2_def t1_def
    by (simp_all add: compose_frame_bits(3) [OF assms] mon_bits [OF len(3)] year_bits [OF len(3)])
  show ?thesis
    unfolding Let_def t1_def [symmetric] t2_def [symmetric] t3_def [symmetric] buf_def [symmetric]
      f1 f2 f3
    using frames m2 m3' h2 h3 d2 d3 mo2 mo3 y2 y3 fb2 fb3 by blast
qed

text \<open>Claim C7, at the failing input. The composition at 23:59:30 on 31 December 2027
  builds its first frame for 23:59 on 31 December and its second for 00:00 on 1 January.
  Decoded from the buffer, minute, hour and day of the month roll over (59 to 0, 23 to 0,
  31 to 1), but the month field goes from 11 to 0, where the calendar goes from 12 to 1,
  and the year field goes from 115 to 110, where the calendar year within the century
  goes from 27 to 28: the month and year fields of the frames are not correctly rolled
  over. The slots carry \<open>bin2Bcd (tm_mon)\<close> and \<open>bin2Bcd (tm_year - 2000)\<close>, the
  encodings of claims C2 and C3.\<close>

theorem readAndDecodeTime_year_end_frames:
  "bcd_decode (frame_bits (pulseArray (readAndDecodeTime tm_2027_12_31 example_state)) 2 45 50) = 11
   \<and> bcd_decode (frame_bits (pulseArray (readAndDecodeTime tm_2027_12_31 example_state)) 62 45 50) = 0
   \<and> bcd_decode (frame_bits (pulseArray (readAndDecodeTime tm_2027_12_31 example_state)) 2 50 58) = 115
   \<and> bcd_decode (frame_bits (pulseArray (readAndDecodeTime tm_2027_12_31 example_state)) 62 50 58) = 110
   \<and> bcd_decode (frame_bits (pulseArray (readAndDecodeTime tm_2027_12_31 example_state)) 2 21 28) = 59
   \<and> bcd_decode (frame_bits (pulseArray (readAndDecodeTime tm_2027_12_31 example_state)) 62 21 28) = 0
   \<and> bcd_decode (frame_bits (pulseArray (readAndDecodeTime tm_2027_12_31 example_state)) 2 29 35) = 23
   \<and> bcd_decode (frame_bits (pulseArray (readAndDecodeTime tm_2027_12_31 example_state)) 62 29 35) = 0
   \<and> bcd_decode (frame_bits (pulseArray (readAndDecodeTime tm_2027_12_31 example_state)) 2 36 42) = 31
   \<and> bcd_decode (frame_bits (pulseArray (readAndDecodeTime tm_2027_12_31 example_state)) 62 36 42) = 1"
proof -
  have len: "length (pulseArray example_state) = 183"
    by (simp add: example_state_fields)
  have b: "tm_sec (corrected_time tm_2027_12_31 example_state) \<le> 56"
    by (simp add: corrected_2027) (simp add: tm_2027_12_31_def)
  have l: "2 + 60 \<le> length (pulseArray example_state)" "62 + 60 \<le> length (pulseArray example_state)"
    by (simp_all add: len)
  have f: "tm_mon tm_2027_12_31 = 11" "tm_year tm_2027_12_31 = 127" "tm_min tm_2027_12_31 = 59"
    "tm_hour tm_2027_12_31 = 23" "tm_mday tm_2027_12_31 = 31"
    by (simp_all add: tm_2027_12_31_def)
  have bits: "low_bits 5 (bin2Bcd 11) = [1, 0, 0, 0, 1]" "low_bits 5 (bin2Bcd 0) = [0, 0, 0, 0, 0]"
    "low_bits 8 (bin2Bcd (127 - 2000)) = [1, 1, 1, 1, 0, 1, 0, 1]"
    "low_bits 8 (bin2Bcd (128 - 2000)) = [0, 0, 0, 0, 1, 1, 0, 1]"
    "low_bits 7 (bin2Bcd 59) = [1, 0, 0, 1, 1, 0, 1]" "low_bits 7 (bin2Bcd 0) = [0, 0, 0, 0, 0, 0, 0]"
    "low_bits 6 (bin2Bcd 23) = [1, 1, 0, 0, 0, 1]" "low_bits 6 (bin2Bcd 0) = [0, 0, 0, 0, 0, 0]"
    "low_bits 6 (bin2Bcd 31) = [1, 0, 0, 0, 1, 1]" "low_bits 6 (bin2Bcd 1) = [1, 0, 0, 0, 0, 0]"
    by (simp_all add: bin2Bcd_def low_bits_Suc low_bits_0 eval_nat_numeral)
  have sixty: "(50::nat) \<le> 60" "(58::nat) \<le> 60" "(28::nat) \<le> 60" "(35::nat) \<le> 60"
    "(42::nat) \<le> 60"
    by simp_all
  note one = compose_frame_bits(1) [OF len b, unfolded corrected_2027]
    and two = compose_frame_bits(2) [OF len b, unfolded corrected_2027]
  have fb: "frame_bits (pulseArray (readAndDecodeTime tm_2027_12_31 example_state)) 2 45 50 =
      [1, 0, 0, 0, 1]"
    "frame_bits (pulseArray (readAndDecodeTime tm_2027_12_31 example_state)) 62 45 50 =
      [0, 0, 0, 0, 0]"
    "frame_bits (pulseArray (readAndDecodeTime tm_2027_12_31 example_state)) 2 50 58 =
      [1, 1, 1, 1, 0, 1, 0, 1]"
    "frame_bits (pulseArray (readAndDecodeTime tm_2027_12_31 example_state)) 62 50 58 =
      [0, 0, 0, 0, 1, 1, 0, 1]"
    "frame_bits (pulseArray (readAndDecodeTime tm_2027_12_31 example_state)) 2 21 28 =
      [1, 0, 0, 1, 1, 0, 1]"
    "frame_bits (pulseArray (readAndDecodeTime tm_2027_12_31 example_state)) 62 21 28 =
      [0, 0, 0, 0, 0, 0, 0]"
    "frame_bits (pulseArray (readAndDecodeTime tm_2027_12_31 example_state)) 2 29 35 =
      [1, 1, 0, 0, 0, 1]"
    "frame_bits (pulseArray (readAndDecodeTime tm_2027_12_31 example_state)) 62 29 35 =
      [0, 0, 0, 0, 0, 0]"
    "frame_bits (pulseArray (readAndDecodeTime tm_2027_12_31 example_state)) 2 36 42 =
      [1, 0, 0, 0, 1, 1]"
    "frame_bits (pulseArray (readAndDecodeTime tm_2027_12_31 example_state)) 62 36 42 =
      [1, 0, 0, 0, 0, 0]"
    unfolding one [OF sixty(1)] two [OF sixty(1)] one [OF sixty(2)] two [OF sixty(2)]
      one [OF sixty(3)] two [OF sixty(3)] one [OF sixty(4)] two [OF sixty(4)]
      one [OF sixty(5)] two [OF sixty(5)]
      mon_bits [OF l(1)] mon_bits [OF l(2)] year_bits [OF l(1)] year_bits [OF l(2)]
      minute_bits [OF l(1)] minute_bits [OF l(2)] hour_bits [OF l(1)] hour_bits [OF l(2)]
      mday_bits [OF l(1)] mday_bits [OF l(2)] next_minute_2027 f bits
    by (rule refl)+
  show ?thesis
    unfolding fb by (simp add: bcd_decode_def)
qed

text \<open>Claim C8. In every reachable state with the transmission flag set, at the start of
  a slot (sub-tick counter 0), the slot index is in 0..182 and the slot holds a pulse
  code; over the ten ticks of the slot the output is low after ticks 0 and 1 and high
  after ticks 2..9 for code 2 (Long), low after tick 0 and high after ticks 1..9 for
  code 1 (Short), and for code 0 (None) the only write is the level 1 at tick 2, so
  the line is never driven low; ticks 0..8 leave the slot index and the flag alone, and
  tick 9 resets the sub-tick counter and advances the slot index, clearing the flag and
  returning the index to 0 exactly when the slot was number 182.\<close>

theorem dcfOut_slot:
  assumes "reachable s" and "dcfOutputOn s = 1" and "partialpulseCount s = 0"
  shows "0 \<le> pulseCount s \<and> pulseCount s \<le> 182
    \<and> pulseArray s ! nat (pulseCount s) \<in> {0, 1, 2}
    \<and> (pulseArray s ! nat (pulseCount s) = 2 \<longrightarrow>
         (\<forall>j<10. pinLevel ((dcfOut ^^ Suc j) s) = (if j < 2 then 0 else 1)))
    \<and> (pulseArray s ! nat (pulseCount s) = 1 \<longrightarrow>
         (\<forall>j<10. pinLevel ((dcfOut ^^ Suc j) s) = (if j < 1 then 0 else 1)))
    \<and> (pulseArray s ! nat (pulseCount s) = 0 \<longrightarrow>
         (\<forall>j<10. pinWrites ((dcfOut ^^ Suc j) s) = pinWrites s @ (if j < 2 then [] else [1])))
    \<and> (\<forall>j<9. pulseCount ((dcfOut ^^ Suc j) s) = pulseCount s
           \<and> dcfOutputOn ((dcfOut ^^ Suc j) s) = 1
           \<and> partialpulseCount ((dcfOut ^^ Suc j) s) = int j + 1)
    \<and> partialpulseCount ((dcfOut ^^ 10) s) = 0
    \<and> pulseCount ((dcfOut ^^ 10) s) = (if pulseCount s = 182 then 0 else pulseCount s + 1)
    \<and> dcfOutputOn ((dcfOut ^^ 10) s) = (if pulseCount s = 182 then 0 else 1)"
proof -
  from assms(1) have inv: "dcf_inv s"
    by (rule reachable_inv)
  then have pc: "0 \<le> pulseCount s" "pulseCount s \<le> 182"
    by (simp_all add: dcf_inv_def)
  then have "nat (pulseCount s) < 183"
    by simp
  with inv have code: "pulseArray s ! nat (pulseCount s) \<in> {0, 1, 2}"
    unfolding dcf_inv_def by blast
  have long: "pinLevel ((dcfOut ^^ Suc j) s) = (if j < 2 then 0 else 1)"
    if "pulseArray s ! nat (pulseCount s) = 2" "j < 10" for j
    unfolding pinLevel_def pinWrites_slot [OF assms(2,3) that(2)]
    by (simp add: slot_writes_def that(1))
  have short: "pinLevel ((dcfOut ^^ Suc j) s) = (if j < 1 then 0 else 1)"
    if "pulseArray s ! nat (pulseCount s) = 1" "j < 10" for j
    unfolding pinLevel_def pinWrites_slot [OF assms(2,3) that(2)]
    by (simp add: slot_writes_def that(1))
  have none: "pinWrites ((dcfOut ^^ Suc j) s) = pinWrites s @ (if j < 2 then [] else [1])"
    if "pulseArray s ! nat (pulseCount s) = 0" "j < 10" for j
    unfolding pinWrites_slot [OF assms(2,3) that(2)]
    by (simp add: slot_writes_def that(1))
  have within: "pulseCount ((dcfOut ^^ Suc j) s) = pulseCount s
      \<and> dcfOutputOn ((dcfOut ^^ Suc j) s) = 1
      \<and> partialpulseCount ((dcfOut ^^ Suc j) s) = int j + 1" if "j < 9" for j
    by (simp only: ticks_within_slot [OF assms(2,3) that]) (simp add: assms(2))
  have last: "partialpulseCount ((dcfOut ^^ 10) s) = 0"
    "pulseCount ((dcfOut ^^ 10) s) = (if pulseCount s = 182 then 0 else pulseCount s + 1)"
    "dcfOutputOn ((dcfOut ^^ 10) s) = (if pulseCount s = 182 then 0 else 1)"
    by (simp_all add: tick_nine [OF assms(2,3)] assms(2))
  from pc code long short none within last show ?thesis
    by blast
qed

text \<open>The theorem on the first transmission after setup: at slot 0 (Short), at slot 1
  (None) ten ticks later, and at slot 22 (the Long start-of-time marker of the first
  frame) after 220 ticks.\<close>

theorem dcfOut_slot_witness:
  "pinLevel ((dcfOut ^^ Suc 0) (readAndDecodeTime tm_2024_12_31 example_state)) = 0
   \<and> pinLevel ((dcfOut ^^ Suc 1) (readAndDecodeTime tm_2024_12_31 example_state)) = 1
   \<and> pinLevel ((dcfOut ^^ Suc 9) (readAndDecodeTime tm_2024_12_31 example_state)) = 1
   \<and> partialpulseCount ((dcfOut ^^ Suc 4) (readAndDecodeTime tm_2024_12_31 example_state)) = 5
   \<and> pulseCount ((dcfOut ^^ 10) (readAndDecodeTime tm_2024_12_31 example_state)) = 1
   \<and> dcfOutputOn ((dcfOut ^^ 10) (readAndDecodeTime tm_2024_12_31 example_state)) = 1
   \<and> pinWrites ((dcfOut ^^ Suc 9) ((dcfOut ^^ 10) (readAndDecodeTime tm_2024_12_31 example_state))) =
       pinWrites ((dcfOut ^^ 10) (readAndDecodeTime tm_2024_12_31 example_state)) @ [1]
   \<and> pinLevel ((dcfOut ^^ Suc 1) ((dcfOut ^^ 220) (readAndDecodeTime tm_2024_12_31 example_state))) = 0
   \<and> pinLevel ((dcfOut ^^ Suc 2) ((dcfOut ^^ 220) (readAndDecodeTime tm_2024_12_31 example_state))) = 1"
proof -
  define s where "s = readAndDecodeTime tm_2024_12_31 example_state"
  have r: "reachable s"
    unfolding s_def by (rule reach_compose [OF reachable_example])
  have b: "tm_sec (corrected_time tm_2024_12_31 example_state) \<le> 56"
    by (simp add: corrected_example) (simp add: tm_2024_12_31_def)
  then have on: "dcfOutputOn s = 1"
    by (simp add: s_def dcfOutputOn_compose corrected_time_def)
  have p: "partialpulseCount s = 0" and pc: "pulseCount s = 0"
    by (simp_all add: s_def compose_other_fields example_state_fields)
  have code: "pulseArray s ! nat (pulseCount s) = 1"
    using reachable_inv [OF r] by (simp add: pc dcf_inv_def)
  note T = dcfOut_slot [OF r on p]
  from T code have short: "\<forall>j<10. pinLevel ((dcfOut ^^ Suc j) s) = (if j < 1 then 0 else 1)"
    by blast
  from T have within: "\<forall>j<9. pulseCount ((dcfOut ^^ Suc j) s) = pulseCount s
           \<and> dcfOutputOn ((dcfOut ^^ Suc j) s) = 1
           \<and> partialpulseCount ((dcfOut ^^ Suc j) s) = int j + 1"
    by blast
  from T have last: "pulseCount ((dcfOut ^^ 10) s) = (if pulseCount s = 182 then 0 else pulseCount s + 1)"
    "dcfOutputOn ((dcfOut ^^ 10) s) = (if pulseCount s = 182 then 0 else 1)"
    by blast+
  have "pinLevel ((dcfOut ^^ Suc 0) s) = 0" "pinLevel ((dcfOut ^^ Suc 1) s) = 1"
    "pinLevel ((dcfOut ^^ Suc 9) s) = 1"
    using short [rule_format, of 0] short [rule_format, of 1] short [rule_format, of 9]
    by simp_all
  moreover have "partialpulseCount ((dcfOut ^^ Suc 4) s) = 5"
    using within [rule_format, of 4] by simp
  moreover have "pulseCount ((dcfOut ^^ 10) s) = 1" "dcfOutputOn ((dcfOut ^^ 10) s) = 1"
    using last by (simp_all add: pc)
  moreover have "pinWrites ((dcfOut ^^ Suc 9) ((dcfOut ^^ 10) s)) = pinWrites ((dcfOut ^^ 10) s) @ [1]"
  proof -
    define u where "u = (dcfOut ^^ 10) s"
    have run: "dcfOutputOn u = 1 \<and> partialpulseCount u = 0 \<and> pulseCount u = pulseCount s + int 1
        \<and> pulseArray u = pulseArray s"
      unfolding u_def using slots_run [OF on p, of 1] by (simp add: pc)
    have ru: "reachable u"
      unfolding u_def by (rule reachable_ticks [OF r])
    have cu: "pulseArray u ! nat (pulseCount u) = 0"
      using run reachable_inv [OF r] by (simp add: pc dcf_inv_def)
    from dcfOut_slot [OF ru] run cu
    have "\<forall>j<10. pinWrites ((dcfOut ^^ Suc j) u) = pinWrites u @ (if j < 2 then [] else [1])"
      by blast
    from this [rule_format, of 9] show ?thesis
      by (simp add: u_def)
  qed
  moreover have "pinLevel ((dcfOut ^^ Suc 1) ((dcfOut ^^ 220) s)) = 0"
    "pinLevel ((dcfOut ^^ Suc 2) ((dcfOut ^^ 220) s)) = 1"
  proof -
    define u where "u = (dcfOut ^^ 220) s"
    have run: "dcfOutputOn u = 1 \<and> partialpulseCount u = 0 \<and> pulseCount u = pulseCount s + int 22
        \<and> pulseArray u = pulseArray s"
      unfolding u_def using slots_run [OF on p, of 22] by (simp add: pc)
    have ru: "reachable u"
      unfolding u_def by (rule reachable_ticks [OF r])
    have "pulseArray s ! 22 = 2"
      by (simp add: s_def compose_buffer [OF b] three_frames_nth example_state_fields
          slot_code_def)
    with run have cu: "pulseArray u ! nat (pulseCount u) = 2"
      by (simp add: pc)
    from dcfOut_slot [OF ru] run cu
    have l: "\<forall>j<10. pinLevel ((dcfOut ^^ Suc j) u) = (if j < 2 then 0 else 1)"
      by blast
    from l [rule_format, of 1] show "pinLevel ((dcfOut ^^ Suc 1) ((dcfOut ^^ 220) s)) = 0"
      by (simp add: u_def)
    from l [rule_format, of 2] show "pinLevel ((dcfOut ^^ Suc 2) ((dcfOut ^^ 220) s)) = 1"
      by (simp add: u_def)
  qed
  ultimately show ?thesis
    unfolding s_def by blast
qed

text \<open>Claim C9, as stated, fails: \<open>bin2Bcd\<close> has no range check and no failing path.
  For 100 it returns 160 and for -1 it returns -1, and \<open>calculateArray\<close> goes on to
  write the seven low bits of 160 into the minute slots.\<close>

theorem bin2Bcd_returns_out_of_range:
  "bin2Bcd 100 = 160 \<and> bin2Bcd (- 1) = - 1
   \<and> frame_bits (calculateArray 2 (tm_2024_03_31\<lparr>tm_min := 100\<rparr>) (replicate 183 0)) 2 21 28 =
       [0, 0, 0, 0, 0, 1, 0]"
proof -
  have "low_bits 7 (bin2Bcd (tm_min (tm_2024_03_31\<lparr>tm_min := 100\<rparr>))) = [0, 0, 0, 0, 0, 1, 0]"
    by (simp add: bin2Bcd_def low_bits_Suc low_bits_0 eval_nat_numeral)
  then show ?thesis
    by (simp add: minute_bits) (simp add: bin2Bcd_def)
qed

text \<open>Claim C9, amended. For every argument outside 0..99, \<open>bin2Bcd\<close> returns a value:
  the argument itself when it is negative, and \<open>16 * (dato div 10) + dato mod 10\<close> when
  it is 100 or more (up to 1342177279 the result fits the 32-bit \<^verbatim>\<open>int\<close>); the frame
  builder continues and writes the low bits of that value.\<close>

theorem bin2Bcd_no_range_check:
  assumes "(- (2 ^ 31) \<le> dato \<and> dato < 0) \<or> (100 \<le> dato \<and> dato \<le> 1342177279)"
  shows "bin2Bcd dato = (if dato < 0 then dato else 16 * (dato div 10) + dato mod 10)
    \<and> - (2 ^ 31) \<le> bin2Bcd dato \<and> bin2Bcd dato < 2 ^ 31
    \<and> (ArrayOffset + 60 \<le> length pa \<longrightarrow>
         frame_bits (calculateArray ArrayOffset (t\<lparr>tm_min := dato\<rparr>) pa) ArrayOffset 21 28 =
           low_bits 7 (bin2Bcd dato))"
proof -
  have v: "bin2Bcd dato = (if dato < 0 then dato else 16 * (dato div 10) + dato mod 10)"
    using assms by (auto simp add: bin2Bcd_def Let_def push_bit_eq_mult)
  have r: "- (2 ^ 31) \<le> bin2Bcd dato \<and> bin2Bcd dato < 2 ^ 31"
  proof (cases "dato < 0")
    case True
    with assms show ?thesis by (simp add: v)
  next
    case False
    with assms have d: "100 \<le> dato" "dato \<le> 1342177279"
      by simp_all
    then have q: "0 \<le> dato div 10" "dato div 10 \<le> 134217727"
      by simp_all
    have m: "0 \<le> dato mod 10" "dato mod 10 < 10"
      by simp_all
    from q m have "- 2147483648 \<le> 16 * (dato div 10) + dato mod 10
        \<and> 16 * (dato div 10) + dato mod 10 < 2147483648"
      by linarith
    with False show ?thesis by (simp add: v)
  qed
  have f: "frame_bits (calculateArray ArrayOffset (t\<lparr>tm_min := dato\<rparr>) pa) ArrayOffset 21 28 =
      low_bits 7 (bin2Bcd dato)" if "ArrayOffset + 60 \<le> length pa"
    using that by (simp add: minute_bits)
  from v r f show ?thesis
    by blast
qed

text \<open>The amended theorem at 100.\<close>

theorem bin2Bcd_no_range_check_witness:
  "bin2Bcd 100 = 16 * (100 div 10) + 100 mod 10
   \<and> frame_bits (calculateArray 2 (tm_2024_03_31\<lparr>tm_min := 100\<rparr>) (replicate 183 0)) 2 21 28 =
       low_bits 7 (bin2Bcd 100)"
proof -
  have h: "(- (2 ^ 31) \<le> (100::int) \<and> (100::int) < 0) \<or> (100 \<le> (100::int) \<and> (100::int) \<le> 1342177279)"
    by simp
  from bin2Bcd_no_range_check [OF h, of 2 "replicate 183 0" tm_2024_03_31] show ?thesis
    by simp
qed

text \<open>Claim C10. For each of the three offsets 2, 62 and 122 and every snapshot,
  \<open>calculateArray\<close> on the 183-slot buffer keeps its length, leaves every slot outside
  \<open>offset..offset+59\<close> as it was, and assigns each of the 60 slots inside (the value
  there does not depend on the buffer before); slots 0, 1 and 182 are therefore
  unchanged by each call and by a whole composition, and hold the header and trailer
  1, 0, 1 that \<open>setupDcf\<close> wrote in every reachable state.\<close>

theorem calculateArray_frame_effect:
  assumes "length pa = 183"
    and "ArrayOffset = FirstMinutePulseBegin \<or> ArrayOffset = SecondMinutePulseBegin
         \<or> ArrayOffset = ThirdMinutePulseBegin"
  shows "length (calculateArray ArrayOffset t pa) = 183
    \<and> (\<forall>i. i < ArrayOffset \<or> ArrayOffset + 60 \<le> i \<longrightarrow>
          calculateArray ArrayOffset t pa ! i = pa ! i)
    \<and> (\<forall>i pa'. ArrayOffset \<le> i \<and> i < ArrayOffset + 60 \<and> length pa' = 183 \<longrightarrow>
          calculateArray ArrayOffset t pa ! i = calculateArray ArrayOffset t pa' ! i)
    \<and> calculateArray ArrayOffset t pa ! 0 = pa ! 0
    \<and> calculateArray ArrayOffset t pa ! 1 = pa ! 1
    \<and> calculateArray ArrayOffset t pa ! 182 = pa ! 182
    \<and> (length (pulseArray s) = 183 \<longrightarrow>
          pulseArray (readAndDecodeTime now s) ! 0 = pulseArray s ! 0
        \<and> pulseArray (readAndDecodeTime now s) ! 1 = pulseArray s ! 1
        \<and> pulseArray (readAndDecodeTime now s) ! 182 = pulseArray s ! 182)
    \<and> (reachable s \<longrightarrow>
          pulseArray s ! 0 = 1 \<and> pulseArray s ! 1 = 0 \<and> pulseArray s ! 182 = 1)"
proof -
  from assms(2) have off: "ArrayOffset = 2 \<or> ArrayOffset = 62 \<or> ArrayOffset = 122"
    by (simp add: FirstMinutePulseBegin_def SecondMinutePulseBegin_def ThirdMinutePulseBegin_def)
  have a: "length (calculateArray ArrayOffset t pa) = 183"
    by (simp add: calculateArray_length assms(1))
  have b: "calculateArray ArrayOffset t pa ! i = pa ! i" if "i < ArrayOffset \<or> ArrayOffset + 60 \<le> i" for i
    using that by (auto simp add: calculateArray_nth_gen)
  have c: "calculateArray ArrayOffset t pa ! i = calculateArray ArrayOffset t pa' ! i"
    if "ArrayOffset \<le> i" "i < ArrayOffset + 60" "length pa' = 183" for i pa'
    using that off assms(1) by (auto simp add: calculateArray_nth_gen)
  have d: "calculateArray ArrayOffset t pa ! 0 = pa ! 0" "calculateArray ArrayOffset t pa ! 1 = pa ! 1"
    "calculateArray ArrayOffset t pa ! 182 = pa ! 182"
    using off by (auto intro!: b)
  have e: "pulseArray (readAndDecodeTime now s) ! 0 = pulseArray s ! 0"
    "pulseArray (readAndDecodeTime now s) ! 1 = pulseArray s ! 1"
    "pulseArray (readAndDecodeTime now s) ! 182 = pulseArray s ! 182"
    if "length (pulseArray s) = 183"
    by (simp_all add: pulseArray_compose Let_def three_frames_nth [OF that])
  have f: "pulseArray s ! 0 = 1 \<and> pulseArray s ! 1 = 0 \<and> pulseArray s ! 182 = 1" if "reachable s"
    using reachable_inv [OF that] by (simp add: dcf_inv_def)
  from a b c d e f show ?thesis
    by blast
qed

text \<open>The theorem at offset 62 on a buffer filled with 7.\<close>

theorem calculateArray_frame_effect_witness:
  "length (calculateArray 62 tm_2024_03_31 (replicate 183 7)) = 183
   \<and> calculateArray 62 tm_2024_03_31 (replicate 183 7) ! 0 = 7
   \<and> calculateArray 62 tm_2024_03_31 (replicate 183 7) ! 61 = 7
   \<and> calculateArray 62 tm_2024_03_31 (replicate 183 7) ! 122 = 7
   \<and> calculateArray 62 tm_2024_03_31 (replicate 183 7) ! 182 = 7
   \<and> calculateArray 62 tm_2024_03_31 (replicate 183 7) ! 100 =
       calculateArray 62 tm_2024_03_31 (replicate 183 0) ! 100
   \<and> pulseArray (readAndDecodeTime tm_2024_12_31 example_state) ! 182 = 1"
proof -
  have h: "length (replicate 183 (7::int)) = 183"
    "62 = FirstMinutePulseBegin \<or> 62 = SecondMinutePulseBegin \<or> 62 = ThirdMinutePulseBegin"
    by (simp_all add: SecondMinutePulseBegin_def)
  have l: "length (pulseArray example_state) = 183" "pulseArray example_state ! 182 = 1"
    by (simp_all add: example_state_def setupDcf_def initial_state_def digitalWrite_def Let_def
        MaxPulseNumber_def)
  note T = calculateArray_frame_effect [OF h, of tm_2024_03_31 example_state tm_2024_12_31]
  from T have a: "length (calculateArray 62 tm_2024_03_31 (replicate 183 7)) = 183"
    by blast
  from T have "\<forall>i. i < 62 \<or> 62 + 60 \<le> i \<longrightarrow>
      calculateArray 62 tm_2024_03_31 (replicate 183 7) ! i = replicate 183 7 ! i"
    by blast
  from this [rule_format, of 0] this [rule_format, of 61] this [rule_format, of 122]
    this [rule_format, of 182]
  have b: "calculateArray 62 tm_2024_03_31 (replicate 183 7) ! 0 = 7"
    "calculateArray 62 tm_2024_03_31 (replicate 183 7) ! 61 = 7"
    "calculateArray 62 tm_2024_03_31 (replicate 183 7) ! 122 = 7"
    "calculateArray 62 tm_2024_03_31 (replicate 183 7) ! 182 = 7"
    by simp_all
  from T have "\<forall>i pa'. 62 \<le> i \<and> i < 62 + 60 \<and> length pa' = 183 \<longrightarrow>
      calculateArray 62 tm_2024_03_31 (replicate 183 7) ! i =
      calculateArray 62 tm_2024_03_31 pa' ! i"
    by blast
  from this [rule_format, of 100 "replicate 183 0"]
  have c: "calculateArray 62 tm_2024_03_31 (replicate 183 7) ! 100 =
       calculateArray 62 tm_2024_03_31 (replicate 183 0) ! 100"
    by simp
  from T l have d: "pulseArray (readAndDecodeTime tm_2024_12_31 example_state) ! 182 = 1"
    by simp
  from a b c d show ?thesis
    by simp
qed

end
